theory Spec2Isabelle
  imports Complex_Main
begin

section \<open>Strings and numbers of the framework\<close>

text \<open>
  The connection of \<^verbatim>\<open>src/base/http/connection.cpp\<close> works on two sequence types of the
  framework: \<^verbatim>\<open>QString\<close> (a sequence of characters) and \<^verbatim>\<open>QByteArray\<close> (a sequence of
  bytes). Both are lists here. The code only compares, filters and cuts them, so the width of
  a character plays no part.
\<close>

type_synonym QString = string
type_synonym QByteArray = string

text \<open>\<^verbatim>\<open>QString::remove(QChar)\<close>: every occurrence of the character is taken out.\<close>

definition remove_char :: "char \<Rightarrow> QString \<Rightarrow> QString" where
  "remove_char c s = filter (\<lambda>x. x \<noteq> c) s"

text \<open>
  \<^verbatim>\<open>QStringView::split(sep)\<close> with the default \<^verbatim>\<open>Qt::KeepEmptyParts\<close>: the pieces between
  the separators, empty ones included (the empty string gives one empty piece).
\<close>

fun splitKeepEmptyParts :: "char \<Rightarrow> QString \<Rightarrow> QString list" where
  "splitKeepEmptyParts sep [] = [[]]"
| "splitKeepEmptyParts sep (c # cs) =
     (if c = sep then [] # splitKeepEmptyParts sep cs
      else (case splitKeepEmptyParts sep cs of
              [] \<Rightarrow> [[c]]
            | p # ps \<Rightarrow> (c # p) # ps))"

text \<open>\<^verbatim>\<open>split(sep, Qt::SkipEmptyParts)\<close>: the same pieces with the empty ones left out.\<close>

definition splitSkipEmptyParts :: "char \<Rightarrow> QString \<Rightarrow> QString list" where
  "splitSkipEmptyParts sep s = filter (\<lambda>p. p \<noteq> []) (splitKeepEmptyParts sep s)"

text \<open>\<^verbatim>\<open>QStringView::startsWith\<close> and \<^verbatim>\<open>QStringView::mid(pos)\<close> (empty when \<^verbatim>\<open>pos\<close> is
  past the end).\<close>

definition startsWith :: "QString \<Rightarrow> QString \<Rightarrow> bool" where
  "startsWith str encoding = (take (length encoding) str = encoding)"

definition mid :: "QString \<Rightarrow> nat \<Rightarrow> QString" where
  "mid str pos = drop pos str"

text \<open>
  A C++ \<^verbatim>\<open>double\<close>, as far as the code looks at it: the value of a finite number, the two
  infinities and NaN. \<^verbatim>\<open>qvalue <= 0\<close> is the comparison of IEEE 754, false on NaN.
\<close>

datatype double = Finite real | PlusInf | MinusInf | NaN

fun le_zero :: "double \<Rightarrow> bool" where
  "le_zero (Finite r) = (r \<le> 0)"
| "le_zero PlusInf = False"
| "le_zero MinusInf = True"
| "le_zero NaN = False"

section \<open>Gzip content negotiation\<close>

text \<open>
  The lambda \<^verbatim>\<open>isCodingAvailable\<close> of \<^verbatim>\<open>Connection::acceptsGzipEncoding\<close>. The number reader
  \<^verbatim>\<open>QStringView::toDouble(&ok)\<close> belongs to the framework; it is the parameter \<open>toDouble\<close>,
  \<open>None\<close> standing for \<^verbatim>\<open>ok == false\<close>. The loop returns at the first entry that starts
  with the encoding.
\<close>

fun isCodingAvailable :: "(QString \<Rightarrow> double option) \<Rightarrow> QString list \<Rightarrow> QString \<Rightarrow> bool" where
  "isCodingAvailable toDouble [] encoding = False"
| "isCodingAvailable toDouble (str # list) encoding =
     (if \<not> startsWith str encoding then isCodingAvailable toDouble list encoding
      else if str = encoding then True
      else (case toDouble (mid str (length encoding + 3)) of
              None \<Rightarrow> False
            | Some qvalue \<Rightarrow> (if le_zero qvalue then False else True)))"

definition acceptsGzipEncoding :: "(QString \<Rightarrow> double option) \<Rightarrow> QString \<Rightarrow> bool" where
  "acceptsGzipEncoding toDouble codings =
     (let list = splitSkipEmptyParts (CHR '','')
                   (remove_char (CHR 0x09) (remove_char (CHR '' '') codings))
      in if list = [] then False
         else if isCodingAvailable toDouble list ''gzip'' then True
         else if isCodingAvailable toDouble list ''*'' then True
         else False)"

text \<open>
  A reader of plain decimal numerals (an optional sign, digits, an optional point and
  digits) that gives the number the numeral denotes. It stands in for the framework's
  reader wherever a concrete one is needed. The framework's reader gives the \<^verbatim>\<open>double\<close>
  next to that number, which is the number itself for the numerals 0, 1 and 0.5 and has
  its sign for the short numerals used below; it also reads exponents and the spellings of
  infinity and NaN, which nothing below relies on.
\<close>

definition isDigit :: "char \<Rightarrow> bool" where
  "isDigit c = (c \<in> set ''0123456789'')"

fun digitsValue :: "nat \<Rightarrow> QString \<Rightarrow> nat" where
  "digitsValue acc [] = acc"
| "digitsValue acc (c # cs) = digitsValue (acc * 10 + (of_char c - 48)) cs"

definition unsignedDecimal :: "QString \<Rightarrow> real option" where
  "unsignedDecimal s =
     (let ip = takeWhile isDigit s; rest = dropWhile isDigit s
      in case rest of
           [] \<Rightarrow> (if ip = [] then None else Some (real (digitsValue 0 ip)))
         | c # fp \<Rightarrow>
             (if c = CHR ''.'' \<and> list_all isDigit fp \<and> (ip \<noteq> [] \<or> fp \<noteq> [])
              then Some (real (digitsValue 0 ip) + real (digitsValue 0 fp) / 10 ^ length fp)
              else None))"

definition decimalToDouble :: "QString \<Rightarrow> double option" where
  "decimalToDouble s =
     (if s \<noteq> [] \<and> hd s = CHR ''-'' then map_option (\<lambda>r. Finite (- r)) (unsignedDecimal (tl s))
      else if s \<noteq> [] \<and> hd s = CHR ''+'' then map_option Finite (unsignedDecimal (tl s))
      else map_option Finite (unsignedDecimal s))"

section \<open>Byte arrays\<close>

text \<open>
  \<^verbatim>\<open>QByteArray::resize\<close> leaves the bytes it adds uninitialised: they are whatever the memory
  held, given here by \<open>junk\<close> (any function from positions to bytes). \<^verbatim>\<open>chop(n)\<close> drops
  \<open>n\<close> bytes from the end. \<^verbatim>\<open>remove(pos, len)\<close> does nothing when \<open>len\<close> is not positive or
  \<open>pos\<close> is outside the array, and cuts to the end when fewer than \<open>len\<close> bytes follow.
  \<open>overwrite\<close> is the copy a read makes into \<^verbatim>\<open>data() + pos\<close>.
\<close>

definition resize :: "QByteArray \<Rightarrow> nat \<Rightarrow> (nat \<Rightarrow> char) \<Rightarrow> QByteArray" where
  "resize buf n junk =
     (if n \<le> length buf then take n buf else buf @ map junk [length buf ..< n])"

definition chop :: "nat \<Rightarrow> QByteArray \<Rightarrow> QByteArray" where
  "chop n buf = take (length buf - n) buf"

definition remove_bytes :: "int \<Rightarrow> int \<Rightarrow> QByteArray \<Rightarrow> QByteArray" where
  "remove_bytes pos len buf =
     (if len \<le> 0 \<or> pos < 0 \<or> int (length buf) \<le> pos then buf
      else take (nat pos) buf @ drop (nat pos + nat len) buf)"

definition overwrite :: "QByteArray \<Rightarrow> nat \<Rightarrow> QByteArray \<Rightarrow> QByteArray" where
  "overwrite buf pos bs = take pos buf @ bs @ drop (pos + length bs) buf"

section \<open>Requests, responses and the collaborators\<close>

text \<open>
  The types of \<^verbatim>\<open>types.h\<close> and \<^verbatim>\<open>requestparser.h\<close>, as \<^verbatim>\<open>connection.cpp\<close> uses them. Of a
  request the connection reads the header map only (the other fields are the record's
  extension); a header map read with \<^verbatim>\<open>operator[]\<close> on a constant request gives the empty
  string for a missing key. \<^verbatim>\<open>Environment\<close> is built positionally from the socket's local
  address, local port, peer address and peer port.
\<close>

type_synonym HeaderMap = "QString \<rightharpoonup> QString"
type_synonym QHostAddress = string
type_synonym Environment = "QHostAddress \<times> nat \<times> QHostAddress \<times> nat"

record Request =
  rq_headers :: HeaderMap

definition header_value :: "HeaderMap \<Rightarrow> QString \<Rightarrow> QString" where
  "header_value h key = (case h key of None \<Rightarrow> [] | Some v \<Rightarrow> v)"

record Response =
  status_code :: nat
  status_text :: QString
  headers :: HeaderMap
  content :: QByteArray

text \<open>The constructor \<^verbatim>\<open>Response(code, text)\<close>: no header, no content.\<close>

definition mkResponse :: "nat \<Rightarrow> QString \<Rightarrow> Response" where
  "mkResponse code txt =
     \<lparr>status_code = code, status_text = txt, headers = Map.empty, content = []\<rparr>"

datatype ParseStatus = OK | Incomplete | BadRequest

record 'a ParseResult =
  status :: ParseStatus
  request :: "'a Request_scheme"
  frameSize :: int

text \<open>
  What the connection calls and does not define: the parser and its size constant, the
  request handler, the serialiser, the number reader and the two header names. They are
  parameters. The parser is a static function of the buffer. Of the handler the connection
  uses the response it returns; that the request was handed to it is recorded among the
  events of the connection.
\<close>

record 'a Collaborators =
  parse :: "QByteArray \<Rightarrow> 'a ParseResult"
  MAX_CONTENT_SIZE :: int
  processRequest :: "'a Request_scheme \<Rightarrow> Environment \<Rightarrow> Response"
  toByteArray :: "Response \<Rightarrow> QByteArray"
  toDouble :: "QString \<Rightarrow> double option"
  HEADER_CONNECTION :: QString
  HEADER_CONTENT_ENCODING :: QString

section \<open>The socket and the connection\<close>

text \<open>
  Of the socket the connection sees whether it is open, the bytes received and not yet
  read, the bytes written and not yet flushed, and the four addresses. A write adds its
  bytes behind those waiting to be flushed; a write on a closed socket is refused by the
  framework. Closing discards the unread bytes; the bytes waiting to be flushed are still
  sent on.
  A read hands over at most \<open>maxSize\<close> of the unread bytes; how many is the transport's
  choice \<open>k\<close> (negative: the read fails), and a closed socket fails every read.
\<close>

record QTcpSocket =
  isOpen :: bool
  readBuffer :: QByteArray
  writeBuffer :: QByteArray
  localAddress :: QHostAddress
  localPort :: nat
  peerAddress :: QHostAddress
  peerPort :: nat

definition bytesAvailable :: "QTcpSocket \<Rightarrow> nat" where
  "bytesAvailable s = length (readBuffer s)"

definition bytesToWrite :: "QTcpSocket \<Rightarrow> nat" where
  "bytesToWrite s = length (writeBuffer s)"

definition socket_write :: "QByteArray \<Rightarrow> QTcpSocket \<Rightarrow> QTcpSocket" where
  "socket_write bytes s =
     (if isOpen s then s\<lparr>writeBuffer := writeBuffer s @ bytes\<rparr> else s)"

definition socket_close :: "QTcpSocket \<Rightarrow> QTcpSocket" where
  "socket_close s = s\<lparr>isOpen := False, readBuffer := []\<rparr>"

definition socket_read :: "int \<Rightarrow> nat \<Rightarrow> QTcpSocket \<Rightarrow> int \<times> QByteArray \<times> QTcpSocket" where
  "socket_read k maxSize s =
     (if \<not> isOpen s \<or> k < 0 then (- 1, [], s)
      else (let got = take (min (nat k) maxSize) (readBuffer s)
            in (int (length got), got, s\<lparr>readBuffer := drop (length got) (readBuffer s)\<rparr>)))"

text \<open>
  What the connection does to the world outside it is kept in order in \<open>events\<close>: the
  messages logged, the requests handed to the handler, the byte strings written to the
  socket and the calls of \<^verbatim>\<open>close\<close>. \<open>m_idleTimer\<close> is the clock reading (milliseconds) at
  the timer's last \<^verbatim>\<open>start()\<close>.
\<close>

datatype LogMessage =
  RequestSizeExceeds int QHostAddress
| BadHttpRequest QHostAddress

datatype 'a Event =
  Logged LogMessage
| Processed "'a Request_scheme" Environment
| Written QByteArray
| Closed

record 'a Connection =
  m_socket :: QTcpSocket
  m_receivedData :: QByteArray
  m_idleTimer :: int
  events :: "'a Event list"

definition LogMsg :: "LogMessage \<Rightarrow> 'a Connection \<Rightarrow> 'a Connection" where
  "LogMsg msg c = c\<lparr>events := events c @ [Logged msg]\<rparr>"

definition sendResponse :: "'a Collaborators \<Rightarrow> Response \<Rightarrow> 'a Connection \<Rightarrow> 'a Connection" where
  "sendResponse d response c =
     c\<lparr>m_socket := socket_write (toByteArray d response) (m_socket c),
       events := events c @ [Written (toByteArray d response)]\<rparr>"

definition closeSocket :: "'a Connection \<Rightarrow> 'a Connection" where
  "closeSocket c = c\<lparr>m_socket := socket_close (m_socket c), events := events c @ [Closed]\<rparr>"

section \<open>Connection::read\<close>

text \<open>
  \<^verbatim>\<open>const long bufferLimit = RequestParser::MAX_CONTENT_SIZE * 1.1\<close>: the product, cut
  towards zero by the conversion to \<^verbatim>\<open>long\<close>. The product is taken exactly.
\<close>

definition bufferLimit :: "int \<Rightarrow> int" where
  "bufferLimit m = (if 0 \<le> m then (m * 11) div 10 else - ((- m * 11) div 10))"

definition payloadTooLarge :: "'a Collaborators \<Rightarrow> Response" where
  "payloadTooLarge d =
     (let resp = mkResponse 413 ''Payload Too Large''
      in resp\<lparr>headers := (headers resp)(HEADER_CONNECTION d \<mapsto> ''close'')\<rparr>)"

definition badRequest :: "'a Collaborators \<Rightarrow> Response" where
  "badRequest d =
     (let resp = mkResponse 400 ''Bad Request''
      in resp\<lparr>headers := (headers resp)(HEADER_CONNECTION d \<mapsto> ''close'')\<rparr>)"

text \<open>The three branches of the \<^verbatim>\<open>switch\<close>, each a function of the connection.\<close>

definition onIncomplete :: "'a Collaborators \<Rightarrow> 'a Connection \<Rightarrow> 'a Connection" where
  "onIncomplete d c =
     (if int (length (m_receivedData c)) > bufferLimit (MAX_CONTENT_SIZE d)
      then closeSocket
             (sendResponse d (payloadTooLarge d)
               (LogMsg (RequestSizeExceeds (bufferLimit (MAX_CONTENT_SIZE d))
                          (peerAddress (m_socket c))) c))
      else c)"

definition onBadRequest :: "'a Collaborators \<Rightarrow> 'a Connection \<Rightarrow> 'a Connection" where
  "onBadRequest d c =
     closeSocket
       (sendResponse d (badRequest d)
         (LogMsg (BadHttpRequest (peerAddress (m_socket c))) c))"

definition okResponse :: "'a Collaborators \<Rightarrow> 'a Request_scheme \<Rightarrow> Environment \<Rightarrow> Response" where
  "okResponse d rq env =
     (let resp = processRequest d rq env;
          resp = (if acceptsGzipEncoding (toDouble d) (header_value (rq_headers rq) ''accept-encoding'')
                  then resp\<lparr>headers := (headers resp)(HEADER_CONTENT_ENCODING d \<mapsto> ''gzip'')\<rparr>
                  else resp)
      in resp\<lparr>headers := (headers resp)(HEADER_CONNECTION d \<mapsto> ''keep-alive'')\<rparr>)"

definition onOK :: "'a Collaborators \<Rightarrow> 'a ParseResult \<Rightarrow> 'a Connection \<Rightarrow> 'a Connection" where
  "onOK d result c =
     (let env = (localAddress (m_socket c), localPort (m_socket c),
                 peerAddress (m_socket c), peerPort (m_socket c));
          c = c\<lparr>events := events c @ [Processed (request result) env]\<rparr>;
          c = sendResponse d (okResponse d (request result) env) c
      in c\<lparr>m_receivedData := remove_bytes 0 (frameSize result) (m_receivedData c)\<rparr>)"

text \<open>
  One pass through the body of the \<^verbatim>\<open>while\<close> loop: the connection after it, and whether the
  loop goes on (\<open>True\<close>, the \<^verbatim>\<open>break\<close> out of the switch) or the function returns (\<open>False\<close>).
  The \<^verbatim>\<open>default\<close> branch has no counterpart: a \<open>ParseStatus\<close> is one of the three values.
\<close>

definition iteration :: "'a Collaborators \<Rightarrow> 'a Connection \<Rightarrow> bool \<times> 'a Connection" where
  "iteration d c =
     (let result = parse d (m_receivedData c)
      in case status result of
           Incomplete \<Rightarrow> (False, onIncomplete d c)
         | BadRequest \<Rightarrow> (False, onBadRequest d c)
         | OK \<Rightarrow> (True, onOK d result c))"

text \<open>
  The loop \<^verbatim>\<open>while (!m_receivedData.isEmpty())\<close>. Nothing in it bounds the number of passes
  (a parser that reports a frame of size 0 keeps it running), so it is a partial function:
  \<open>None\<close> is the loop that never ends.
\<close>

partial_function (option) drain :: "'a Collaborators \<Rightarrow> 'a Connection \<Rightarrow> 'a Connection option" where
  "drain d c =
     (if m_receivedData c = [] then Some c
      else if fst (iteration d c) then drain d (snd (iteration d c))
      else Some (snd (iteration d c)))"

definition read :: "'a Collaborators \<Rightarrow> (nat \<Rightarrow> char) \<Rightarrow> int \<Rightarrow> 'a Connection \<Rightarrow> 'a Connection option" where
  "read d junk k c =
     (let previousSize = length (m_receivedData c);
          available = bytesAvailable (m_socket c);
          resized = resize (m_receivedData c) (previousSize + available) junk;
          (bytesRead, got, sock) = socket_read k available (m_socket c)
      in if bytesRead < 0 then Some (closeSocket (c\<lparr>m_receivedData := resized\<rparr>))
         else (let filled = overwrite resized previousSize got;
                   data = (if bytesRead < int available
                           then chop (available - nat bytesRead) filled else filled)
               in drain d (c\<lparr>m_socket := sock, m_receivedData := data\<rparr>)))"

text \<open>
  The two slots the constructor connects: on \<^verbatim>\<open>readyRead\<close> the timer is restarted and
  \<^verbatim>\<open>read()\<close> runs; on \<^verbatim>\<open>bytesWritten\<close> (the socket has flushed \<open>n\<close> bytes) the timer is
  restarted.
\<close>

definition onBytesAvailable ::
  "'a Collaborators \<Rightarrow> (nat \<Rightarrow> char) \<Rightarrow> int \<Rightarrow> int \<Rightarrow> 'a Connection \<Rightarrow> 'a Connection option" where
  "onBytesAvailable d junk now k c = read d junk k (c\<lparr>m_idleTimer := now\<rparr>)"

definition onBytesWritten :: "int \<Rightarrow> nat \<Rightarrow> 'a Connection \<Rightarrow> 'a Connection" where
  "onBytesWritten now n c =
     c\<lparr>m_socket := (m_socket c)\<lparr>writeBuffer := drop n (writeBuffer (m_socket c))\<rparr>,
       m_idleTimer := now\<rparr>"

section \<open>Connection::hasExpired\<close>

text \<open>
  \<^verbatim>\<open>QElapsedTimer::hasExpired(timeout)\<close> of the framework: a negative timeout never
  expires, otherwise the timer has expired when the time elapsed since its start is more
  than the timeout.
\<close>

definition timer_hasExpired :: "int \<Rightarrow> int \<Rightarrow> bool" where
  "timer_hasExpired elapsed timeout = (if timeout < 0 then False else timeout < elapsed)"

definition hasExpired :: "int \<Rightarrow> int \<Rightarrow> 'a Connection \<Rightarrow> bool" where
  "hasExpired now timeout c =
     (bytesAvailable (m_socket c) = 0
      \<and> bytesToWrite (m_socket c) = 0
      \<and> timer_hasExpired (now - m_idleTimer c) timeout)"

section \<open>Bytes arriving in chunks\<close>

text \<open>
  The peer's bytes reach the socket in chunks. A chunk that arrives on an open socket is
  added to the socket's unread bytes, \<^verbatim>\<open>readyRead\<close> is emitted at the clock reading that
  comes with the chunk, and the read hands over all that is unread. A closed socket takes
  no bytes and emits no signal.
\<close>

definition deliver ::
  "'a Collaborators \<Rightarrow> (nat \<Rightarrow> char) \<Rightarrow> int \<times> QByteArray \<Rightarrow> 'a Connection \<Rightarrow> 'a Connection option" where
  "deliver d junk x c =
     (if isOpen (m_socket c)
      then (let sock = (m_socket c)\<lparr>readBuffer := readBuffer (m_socket c) @ snd x\<rparr>
            in onBytesAvailable d junk (fst x) (int (bytesAvailable sock)) (c\<lparr>m_socket := sock\<rparr>))
      else Some c)"

fun deliverAll ::
  "'a Collaborators \<Rightarrow> (nat \<Rightarrow> char) \<Rightarrow> (int \<times> QByteArray) list \<Rightarrow> 'a Connection \<Rightarrow> 'a Connection option" where
  "deliverAll d junk [] c = Some c"
| "deliverAll d junk (x # xs) c =
     (case deliver d junk x c of
        None \<Rightarrow> None
      | Some c' \<Rightarrow> deliverAll d junk xs c')"

text \<open>The requests handed to the handler and the byte strings written, in order.\<close>

fun requestsOf :: "'a Event list \<Rightarrow> 'a Request_scheme list" where
  "requestsOf [] = []"
| "requestsOf (Processed rq env # es) = rq # requestsOf es"
| "requestsOf (e # es) = requestsOf es"

fun responsesOf :: "'a Event list \<Rightarrow> QByteArray list" where
  "responsesOf [] = []"
| "responsesOf (Written bytes # es) = bytes # responsesOf es"
| "responsesOf (e # es) = responsesOf es"

section \<open>What the connection expects of the parser\<close>

text \<open>
  The parser's part of the contract: a frame it reports lies within the buffer and is not
  empty, and bytes that arrive behind a complete request do not change the verdict on it.
\<close>

definition framesStable :: "'a Collaborators \<Rightarrow> bool" where
  "framesStable d =
     (\<forall>b. status (parse d b) = OK \<longrightarrow>
        0 < frameSize (parse d b) \<and> frameSize (parse d b) \<le> int (length b)
        \<and> (\<forall>e. parse d (b @ e) = parse d b))"

text \<open>
  A buffer that holds complete requests back to back: \<open>frames\<close> lists each request with
  its bytes, \<open>rest\<close> is what follows the last of them, and the parser finds each request
  at the front of what remains.
\<close>

fun framed :: "'a Collaborators \<Rightarrow> ('a Request_scheme \<times> QByteArray) list \<Rightarrow> QByteArray \<Rightarrow> bool" where
  "framed d [] rest = True"
| "framed d (f # fs) rest =
     (snd f \<noteq> []
      \<and> status (parse d (snd f @ concat (map snd fs) @ rest)) = OK
      \<and> request (parse d (snd f @ concat (map snd fs) @ rest)) = fst f
      \<and> frameSize (parse d (snd f @ concat (map snd fs) @ rest)) = int (length (snd f))
      \<and> framed d fs rest)"

text \<open>The environment the \<^verbatim>\<open>OK\<close> branch builds from the socket.\<close>

definition socketEnvironment :: "QTcpSocket \<Rightarrow> Environment" where
  "socketEnvironment s = (localAddress s, localPort s, peerAddress s, peerPort s)"

text \<open>The connection after the requests of \<open>frames\<close> have been served one after the other.\<close>

fun served :: "'a Collaborators \<Rightarrow> ('a Request_scheme \<times> QByteArray) list \<Rightarrow> 'a Connection \<Rightarrow> 'a Connection" where
  "served d [] c = c"
| "served d (f # fs) c = served d fs (onOK d (parse d (m_receivedData c)) c)"

definition exchange :: "'a Collaborators \<Rightarrow> Environment \<Rightarrow> 'a Request_scheme \<Rightarrow> 'a Event list" where
  "exchange d env rq = [Processed rq env, Written (toByteArray d (okResponse d rq env))]"

section \<open>A line protocol\<close>

text \<open>
  A set of collaborators to run the connection on: each request is one line, closed by a
  line feed, and carries the line as its \<^verbatim>\<open>accept-encoding\<close> header; a line with an
  exclamation mark in it is malformed. The handler answers 200 with the line as content,
  and the serialiser writes the status text, the content encoding if there is one, and the
  content.
\<close>

definition lineParser :: "QByteArray \<Rightarrow> unit ParseResult" where
  "lineParser buf =
     (let line = takeWhile (\<lambda>c. c \<noteq> CHR 0x0A) buf
      in if CHR ''!'' \<in> set line
         then \<lparr>status = BadRequest, request = \<lparr>rq_headers = Map.empty\<rparr>, frameSize = 0\<rparr>
         else if length line = length buf
         then \<lparr>status = Incomplete, request = \<lparr>rq_headers = Map.empty\<rparr>, frameSize = 0\<rparr>
         else \<lparr>status = OK,
               request = \<lparr>rq_headers = [''accept-encoding'' \<mapsto> line]\<rparr>,
               frameSize = int (length line) + 1\<rparr>)"

definition lineHandler :: "Request \<Rightarrow> Environment \<Rightarrow> Response" where
  "lineHandler rq env =
     (mkResponse 200 ''OK'')\<lparr>content := header_value (rq_headers rq) ''accept-encoding''\<rparr>"

definition lineSerializer :: "Response \<Rightarrow> QByteArray" where
  "lineSerializer r =
     status_text r @ ''|'' @ header_value (headers r) ''content-encoding'' @ ''|'' @ content r"

definition lineServer :: "unit Collaborators" where
  "lineServer =
     \<lparr>parse = lineParser,
      MAX_CONTENT_SIZE = 67108864,
      processRequest = lineHandler,
      toByteArray = lineSerializer,
      toDouble = decimalToDouble,
      HEADER_CONNECTION = ''connection'',
      HEADER_CONTENT_ENCODING = ''content-encoding''\<rparr>"

text \<open>A connection as the constructor leaves it: an open socket, nothing received.\<close>

definition freshConnection :: "unit Connection" where
  "freshConnection =
     \<lparr>m_socket = \<lparr>isOpen = True, readBuffer = [], writeBuffer = [],
                  localAddress = ''10.0.0.1'', localPort = 8080,
                  peerAddress = ''10.0.0.2'', peerPort = 50000\<rparr>,
      m_receivedData = [],
      m_idleTimer = 0,
      events = []\<rparr>"

section \<open>Properties of the content negotiation\<close>

lemmas gzip_defs =
  acceptsGzipEncoding_def splitSkipEmptyParts_def remove_char_def startsWith_def mid_def

lemmas decimal_defs = decimalToDouble_def unsignedDecimal_def isDigit_def

text \<open>
  C1. On the reference vectors \<^verbatim>\<open>acceptsGzipEncoding\<close> gives the reference results:
  \<^verbatim>\<open>"gzip"\<close> true, \<^verbatim>\<open>"gzip;q=0"\<close> false, \<^verbatim>\<open>"gzip;q=0.5"\<close> true, the empty string false,
  \<^verbatim>\<open>"*"\<close> true, \<^verbatim>\<open>"deflate"\<close> false, \<^verbatim>\<open>"gzip;q=abc"\<close> false and \<^verbatim>\<open>"deflate, *;q=0.3"\<close>
  true, the last one through the entry for \<^verbatim>\<open>*\<close> and not through one for \<^verbatim>\<open>gzip\<close>. The
  hypotheses say what the framework's number reader makes of the four quality texts: the
  numbers 0 and 0.5, no number, and a positive number (the \<^verbatim>\<open>double\<close> next to 0.3).
\<close>

theorem acceptsGzipEncoding_reference_results:
  assumes "reader ''0'' = Some (Finite 0)"
    and "reader ''0.5'' = Some (Finite (1 / 2))"
    and "reader ''abc'' = None"
    and "reader ''0.3'' = Some (Finite x)"
    and "0 < x"
  shows "acceptsGzipEncoding reader ''gzip''
    \<and> \<not> acceptsGzipEncoding reader ''gzip;q=0''
    \<and> acceptsGzipEncoding reader ''gzip;q=0.5''
    \<and> \<not> acceptsGzipEncoding reader []
    \<and> acceptsGzipEncoding reader ''*''
    \<and> \<not> acceptsGzipEncoding reader ''deflate''
    \<and> \<not> acceptsGzipEncoding reader ''gzip;q=abc''
    \<and> acceptsGzipEncoding reader ''deflate, *;q=0.3''
    \<and> \<not> isCodingAvailable reader [''deflate'', ''*;q=0.3''] ''gzip''
    \<and> isCodingAvailable reader [''deflate'', ''*;q=0.3''] ''*''"
  using assms by (simp add: gzip_defs)

theorem acceptsGzipEncoding_reference_results_witness:
  "decimalToDouble ''0'' = Some (Finite 0)
   \<and> decimalToDouble ''0.5'' = Some (Finite (1 / 2))
   \<and> decimalToDouble ''abc'' = None
   \<and> decimalToDouble ''0.3'' = Some (Finite (3 / 10))
   \<and> acceptsGzipEncoding decimalToDouble ''gzip''
   \<and> \<not> acceptsGzipEncoding decimalToDouble ''gzip;q=0''
   \<and> acceptsGzipEncoding decimalToDouble ''gzip;q=0.5''
   \<and> \<not> acceptsGzipEncoding decimalToDouble []
   \<and> acceptsGzipEncoding decimalToDouble ''*''
   \<and> \<not> acceptsGzipEncoding decimalToDouble ''deflate''
   \<and> \<not> acceptsGzipEncoding decimalToDouble ''gzip;q=abc''
   \<and> acceptsGzipEncoding decimalToDouble ''deflate, *;q=0.3''"
proof -
  have r0: "decimalToDouble ''0'' = Some (Finite 0)"
    and r1: "decimalToDouble ''0.5'' = Some (Finite (1 / 2))"
    and r2: "decimalToDouble ''abc'' = None"
    and r3: "decimalToDouble ''0.3'' = Some (Finite (3 / 10))"
    by (simp_all add: decimal_defs)
  have pos: "(0::real) < 3 / 10"
    by simp
  from acceptsGzipEncoding_reference_results [OF r0 r1 r2 r3 pos] r0 r1 r2 r3
  show ?thesis by blast
qed

text \<open>
  C2. An entry that starts with the target token and is neither the token nor the token
  followed by \<^verbatim>\<open>;q=\<close> and a number is to be treated as rejection. The code does so only by
  chance: it cuts the entry three characters behind the token (the comment says: skip over
  \<^verbatim>\<open>gzip;q=\<close>) and never looks at the three characters. The entry \<^verbatim>\<open>gzipper\<close> is rejected,
  since nothing is left behind the three characters. But \<^verbatim>\<open>gzipXYZ1\<close>, \<^verbatim>\<open>gzipper1\<close> and
  \<^verbatim>\<open>*abc5\<close>, none of which has \<^verbatim>\<open>;q=\<close> behind the token, are accepted, because what is left
  reads as a positive number.
\<close>

theorem isCodingAvailable_malformed_suffix_accepted:
  "startsWith ''gzipXYZ1'' ''gzip''
   \<and> ''gzipXYZ1'' \<noteq> ''gzip''
   \<and> take 3 (drop (length ''gzip'') ''gzipXYZ1'') \<noteq> '';q=''
   \<and> decimalToDouble ''1'' = Some (Finite 1)
   \<and> isCodingAvailable decimalToDouble [''gzipXYZ1''] ''gzip''
   \<and> acceptsGzipEncoding decimalToDouble ''gzipXYZ1''
   \<and> take 3 (drop (length ''gzip'') ''gzipper1'') \<noteq> '';q=''
   \<and> isCodingAvailable decimalToDouble [''gzipper1''] ''gzip''
   \<and> acceptsGzipEncoding decimalToDouble ''gzipper1''
   \<and> take 3 (drop (length ''*'') ''*abc5'') \<noteq> '';q=''
   \<and> decimalToDouble ''5'' = Some (Finite 5)
   \<and> isCodingAvailable decimalToDouble [''*abc5''] ''*''
   \<and> acceptsGzipEncoding decimalToDouble ''*abc5''
   \<and> decimalToDouble [] = None
   \<and> \<not> isCodingAvailable decimalToDouble [''gzipper''] ''gzip''
   \<and> \<not> acceptsGzipEncoding decimalToDouble ''gzipper''"
  by (simp add: gzip_defs decimal_defs)

text \<open>
  C3. For a target token only the first entry that starts with it is inspected: the
  verdict on the whole sequence is the verdict on that entry alone, whatever follows it.
  In particular, when that entry is not the bare token and its quality text does not read
  as a number, or reads as one that is at most 0, the token is not accepted, also when a
  later entry would accept it.
\<close>

theorem isCodingAvailable_first_entry_only:
  assumes "\<forall>s\<in>set before. \<not> startsWith s encoding"
    and "startsWith str encoding"
  shows "isCodingAvailable reader (before @ str # after) encoding
           = isCodingAvailable reader [str] encoding
    \<and> (str \<noteq> encoding
         \<and> (\<forall>q. reader (mid str (length encoding + 3)) = Some q \<longrightarrow> le_zero q)
        \<longrightarrow> \<not> isCodingAvailable reader (before @ str # after) encoding)"
proof -
  have first: "isCodingAvailable reader (before @ str # after) encoding
      = isCodingAvailable reader [str] encoding"
    using assms by (induction before) (simp_all split: option.splits)
  have "\<not> isCodingAvailable reader [str] encoding"
    if "str \<noteq> encoding"
      and "\<forall>q. reader (mid str (length encoding + 3)) = Some q \<longrightarrow> le_zero q"
    using that assms(2) by (simp split: option.splits)
  with first show ?thesis by simp
qed

theorem isCodingAvailable_first_entry_only_witness:
  "startsWith ''gzip;q=0'' ''gzip''
   \<and> ''gzip;q=0'' \<noteq> ''gzip''
   \<and> decimalToDouble (mid ''gzip;q=0'' (length ''gzip'' + 3)) = Some (Finite 0)
   \<and> isCodingAvailable decimalToDouble [''gzip''] ''gzip''
   \<and> \<not> isCodingAvailable decimalToDouble ([''deflate''] @ ''gzip;q=0'' # [''gzip'']) ''gzip''"
proof -
  have before: "\<forall>s\<in>set [''deflate'']. \<not> startsWith s ''gzip''"
    and str: "startsWith ''gzip;q=0'' ''gzip''"
    by (simp_all add: startsWith_def)
  have num: "decimalToDouble (mid ''gzip;q=0'' (length ''gzip'' + 3)) = Some (Finite 0)"
    by (simp add: mid_def decimal_defs)
  have later: "isCodingAvailable decimalToDouble [''gzip''] ''gzip''"
    by (simp add: startsWith_def)
  from isCodingAvailable_first_entry_only [OF before str, of decimalToDouble "[''gzip'']"] num
  have "\<not> isCodingAvailable decimalToDouble ([''deflate''] @ ''gzip;q=0'' # [''gzip'']) ''gzip''"
    by simp
  with str num later show ?thesis by simp
qed

subsection \<open>Empty tokens\<close>

lemma splitKeepEmptyParts_not_Nil: "splitKeepEmptyParts sep s \<noteq> []"
  by (induction s) (auto split: list.splits)

lemma splitKeepEmptyParts_append:
  "splitKeepEmptyParts sep (a @ sep # b) = splitKeepEmptyParts sep a @ splitKeepEmptyParts sep b"
proof (induction a)
  case Nil
  show ?case by simp
next
  case (Cons c a)
  obtain p ps where "splitKeepEmptyParts sep a = p # ps"
    using splitKeepEmptyParts_not_Nil [of sep a] by (cases "splitKeepEmptyParts sep a") auto
  with Cons show ?case by simp
qed

lemma splitSkipEmptyParts_append:
  "splitSkipEmptyParts sep (a @ sep # b) = splitSkipEmptyParts sep a @ splitSkipEmptyParts sep b"
  by (simp add: splitSkipEmptyParts_def splitKeepEmptyParts_append)

lemma splitSkipEmptyParts_Nil: "splitSkipEmptyParts sep [] = []"
  by (simp add: splitSkipEmptyParts_def)

lemma splitSkipEmptyParts_leading: "splitSkipEmptyParts sep (sep # s) = splitSkipEmptyParts sep s"
  by (simp add: splitSkipEmptyParts_def)

lemma splitSkipEmptyParts_repeated:
  "splitSkipEmptyParts sep (a @ sep # sep # b) = splitSkipEmptyParts sep (a @ sep # b)"
  by (simp add: splitSkipEmptyParts_append splitSkipEmptyParts_leading)

lemma splitSkipEmptyParts_only_separators:
  "\<forall>c\<in>set s. c = sep \<Longrightarrow> splitSkipEmptyParts sep s = []"
  by (induction s) (simp_all add: splitSkipEmptyParts_Nil splitSkipEmptyParts_leading)

lemma remove_char_append: "remove_char c (a @ b) = remove_char c a @ remove_char c b"
  by (simp add: remove_char_def)

lemma remove_char_comma:
  "remove_char (CHR 0x09) (remove_char (CHR '' '') (CHR '','' # s))
     = CHR '','' # remove_char (CHR 0x09) (remove_char (CHR '' '') s)"
  by (simp add: remove_char_def)

lemma acceptsGzipEncoding_cong:
  "splitSkipEmptyParts (CHR '','') (remove_char (CHR 0x09) (remove_char (CHR '' '') a))
     = splitSkipEmptyParts (CHR '','') (remove_char (CHR 0x09) (remove_char (CHR '' '') b))
   \<Longrightarrow> acceptsGzipEncoding reader a = acceptsGzipEncoding reader b"
  by (simp add: acceptsGzipEncoding_def)

text \<open>
  C10. Empty tokens are discarded. A header value made of commas, spaces and tabs only
  has no token and is not accepted. A comma in front, a comma at the end and a comma
  doubled anywhere leave the result as it is; \<^verbatim>\<open>",gzip,"\<close> gives what \<^verbatim>\<open>"gzip"\<close> gives.
\<close>

theorem acceptsGzipEncoding_skips_empty_tokens:
  "((\<forall>c\<in>set s. c = CHR '','' \<or> c = CHR '' '' \<or> c = CHR 0x09) \<longrightarrow>
      splitSkipEmptyParts (CHR '','') (remove_char (CHR 0x09) (remove_char (CHR '' '') s)) = []
      \<and> \<not> acceptsGzipEncoding reader s)
   \<and> acceptsGzipEncoding reader ('','' @ s) = acceptsGzipEncoding reader s
   \<and> acceptsGzipEncoding reader (s @ '','') = acceptsGzipEncoding reader s
   \<and> acceptsGzipEncoding reader (a @ '',,'' @ b) = acceptsGzipEncoding reader (a @ '','' @ b)
   \<and> acceptsGzipEncoding reader '',gzip,'' = acceptsGzipEncoding reader ''gzip''"
proof (intro conjI impI)
  assume only: "\<forall>c\<in>set s. c = CHR '','' \<or> c = CHR '' '' \<or> c = CHR 0x09"
  have "\<forall>c\<in>set (remove_char (CHR 0x09) (remove_char (CHR '' '') s)). c = CHR '',''"
    using only by (auto simp: remove_char_def)
  then show none: "splitSkipEmptyParts (CHR '','') (remove_char (CHR 0x09) (remove_char (CHR '' '') s)) = []"
    by (rule splitSkipEmptyParts_only_separators)
  then show "\<not> acceptsGzipEncoding reader s"
    by (simp add: acceptsGzipEncoding_def)
next
  show "acceptsGzipEncoding reader ('','' @ s) = acceptsGzipEncoding reader s"
    by (rule acceptsGzipEncoding_cong) (simp add: remove_char_comma splitSkipEmptyParts_leading)
next
  have "remove_char (CHR 0x09) (remove_char (CHR '' '') '','') = '',''"
    by (simp add: remove_char_def)
  then show "acceptsGzipEncoding reader (s @ '','') = acceptsGzipEncoding reader s"
    by (intro acceptsGzipEncoding_cong)
      (simp add: remove_char_append splitSkipEmptyParts_append splitSkipEmptyParts_Nil)
next
  show "acceptsGzipEncoding reader (a @ '',,'' @ b) = acceptsGzipEncoding reader (a @ '','' @ b)"
    by (rule acceptsGzipEncoding_cong)
      (simp add: remove_char_append remove_char_comma splitSkipEmptyParts_repeated)
next
  show "acceptsGzipEncoding reader '',gzip,'' = acceptsGzipEncoding reader ''gzip''"
    by (rule acceptsGzipEncoding_cong) (simp add: remove_char_def splitSkipEmptyParts_def)
qed

theorem acceptsGzipEncoding_skips_empty_tokens_witness:
  "set [CHR '','', CHR '' '', CHR '','', CHR 0x09, CHR '',''] \<subseteq> {CHR '','', CHR '' '', CHR 0x09}
   \<and> \<not> acceptsGzipEncoding decimalToDouble [CHR '','', CHR '' '', CHR '','', CHR 0x09, CHR '','']
   \<and> acceptsGzipEncoding decimalToDouble '',gzip,''
   \<and> acceptsGzipEncoding decimalToDouble ''gzip''
   \<and> acceptsGzipEncoding decimalToDouble '',,gzip;q=0.5,,deflate,''"
proof -
  let ?s = "[CHR '','', CHR '' '', CHR '','', CHR 0x09, CHR '','']"
  have only: "\<forall>c\<in>set ?s. c = CHR '','' \<or> c = CHR '' '' \<or> c = CHR 0x09"
    by simp
  from acceptsGzipEncoding_skips_empty_tokens [of ?s decimalToDouble] only
  have "\<not> acceptsGzipEncoding decimalToDouble ?s"
    by blast
  moreover have "acceptsGzipEncoding decimalToDouble ''gzip''"
    by (simp add: gzip_defs)
  moreover have "acceptsGzipEncoding decimalToDouble '',gzip,''"
    by (simp add: gzip_defs)
  moreover have "acceptsGzipEncoding decimalToDouble '',,gzip;q=0.5,,deflate,''"
    by (simp add: gzip_defs decimal_defs)
  ultimately show ?thesis by simp
qed

section \<open>Properties of the parse-drain loop\<close>

lemmas effect_defs = closeSocket_def sendResponse_def LogMsg_def socket_close_def socket_write_def

lemma drain_empty: "m_receivedData c = [] \<Longrightarrow> drain d c = Some c"
  by (subst drain.simps) simp

lemma drain_OK:
  "m_receivedData c \<noteq> [] \<Longrightarrow> status (parse d (m_receivedData c)) = OK \<Longrightarrow>
   drain d c = drain d (onOK d (parse d (m_receivedData c)) c)"
  by (subst drain.simps) (simp add: iteration_def)

lemma drain_Incomplete:
  "m_receivedData c \<noteq> [] \<Longrightarrow> status (parse d (m_receivedData c)) = Incomplete \<Longrightarrow>
   drain d c = Some (onIncomplete d c)"
  by (subst drain.simps) (simp add: iteration_def)

lemma drain_BadRequest:
  "m_receivedData c \<noteq> [] \<Longrightarrow> status (parse d (m_receivedData c)) = BadRequest \<Longrightarrow>
   drain d c = Some (onBadRequest d c)"
  by (subst drain.simps) (simp add: iteration_def)

lemma onOK_buffer: "m_receivedData (onOK d r c) = drop (nat (frameSize r)) (m_receivedData c)"
  by (simp add: onOK_def sendResponse_def remove_bytes_def Let_def)

lemma onOK_events:
  "events (onOK d r c) = events c @ exchange d (socketEnvironment (m_socket c)) (request r)"
  by (simp add: onOK_def sendResponse_def exchange_def socketEnvironment_def Let_def)

lemma onOK_environment:
  "socketEnvironment (m_socket (onOK d r c)) = socketEnvironment (m_socket c)"
  by (simp add: onOK_def sendResponse_def socket_write_def socketEnvironment_def Let_def)

lemma onOK_readBuffer: "readBuffer (m_socket (onOK d r c)) = readBuffer (m_socket c)"
  by (simp add: onOK_def sendResponse_def socket_write_def Let_def)

lemma onOK_more_bytes:
  assumes "0 < frameSize r" and "frameSize r \<le> int (length (m_receivedData c))"
  shows "onOK d r (c\<lparr>m_receivedData := m_receivedData c @ e, m_idleTimer := t\<rparr>) =
         (onOK d r c)\<lparr>m_receivedData := m_receivedData (onOK d r c) @ e, m_idleTimer := t\<rparr>"
  using assms by (simp add: onOK_def sendResponse_def remove_bytes_def Let_def)

lemma onBadRequest_closed: "\<not> isOpen (m_socket (onBadRequest d c))"
  by (simp add: onBadRequest_def effect_defs)

lemma onIncomplete_cases:
  "onIncomplete d c = c \<or> \<not> isOpen (m_socket (onIncomplete d c))"
  by (simp add: onIncomplete_def effect_defs)

lemma onOK_isOpen: "isOpen (m_socket (onOK d r c)) = isOpen (m_socket c)"
  by (simp add: onOK_def sendResponse_def socket_write_def Let_def)

lemma onOK_writeBuffer:
  "isOpen (m_socket c) \<Longrightarrow>
   writeBuffer (m_socket (onOK d r c)) =
     writeBuffer (m_socket c)
     @ toByteArray d (okResponse d (request r) (socketEnvironment (m_socket c)))"
  by (simp add: onOK_def sendResponse_def socket_write_def socketEnvironment_def Let_def)

lemma onOK_writeBuffer_grows:
  "\<exists>sent. writeBuffer (m_socket (onOK d r c)) = writeBuffer (m_socket c) @ sent"
  by (simp add: onOK_def sendResponse_def socket_write_def Let_def)

lemma onIncomplete_grows:
  "\<exists>more sent. events (onIncomplete d c) = events c @ more
     \<and> writeBuffer (m_socket (onIncomplete d c)) = writeBuffer (m_socket c) @ sent"
  by (simp add: onIncomplete_def effect_defs)

lemma onBadRequest_grows:
  "\<exists>more sent. events (onBadRequest d c) = events c @ more
     \<and> writeBuffer (m_socket (onBadRequest d c)) = writeBuffer (m_socket c) @ sent"
  by (simp add: onBadRequest_def effect_defs)

text \<open>
  With a parser that keeps to its contract the loop ends, and what it did is added behind
  the events there were and behind the bytes the socket had to write.
\<close>

lemma drain_returns:
  assumes "framesStable d"
  shows "\<exists>c' more sent. drain d c = Some c' \<and> events c' = events c @ more
           \<and> writeBuffer (m_socket c') = writeBuffer (m_socket c) @ sent"
proof (induction "length (m_receivedData c)" arbitrary: c rule: less_induct)
  case less
  show ?case
  proof (cases "m_receivedData c = []")
    case True
    then show ?thesis by (simp add: drain_empty)
  next
    case False
    show ?thesis
    proof (cases "status (parse d (m_receivedData c))")
      case OK
      let ?c1 = "onOK d (parse d (m_receivedData c)) c"
      from assms OK have "0 < frameSize (parse d (m_receivedData c))"
        by (simp add: framesStable_def)
      with False have "length (m_receivedData ?c1) < length (m_receivedData c)"
        by (simp add: onOK_buffer)
      from less [OF this] obtain c' more sent
        where run: "drain d ?c1 = Some c'" and ev: "events c' = events ?c1 @ more"
          and wb: "writeBuffer (m_socket c') = writeBuffer (m_socket ?c1) @ sent"
        by blast
      from onOK_writeBuffer_grows [of d "parse d (m_receivedData c)" c] obtain sent1
        where wb1: "writeBuffer (m_socket ?c1) = writeBuffer (m_socket c) @ sent1"
        by blast
      have "drain d c = Some c'"
        using run by (simp add: drain_OK [OF False OK])
      moreover have "events c' = events c
          @ (exchange d (socketEnvironment (m_socket c)) (request (parse d (m_receivedData c))) @ more)"
        using ev by (simp add: onOK_events)
      moreover have "writeBuffer (m_socket c') = writeBuffer (m_socket c) @ (sent1 @ sent)"
        using wb wb1 by simp
      ultimately show ?thesis by blast
    next
      case Incomplete
      from onIncomplete_grows [of d c] show ?thesis
        by (simp add: drain_Incomplete [OF False Incomplete])
    next
      case BadRequest
      from onBadRequest_grows [of d c] show ?thesis
        by (simp add: drain_BadRequest [OF False BadRequest])
    qed
  qed
qed

text \<open>
  The limit, an integer, and the ceiling \<open>MAX_CONTENT_SIZE \<times> 1.1\<close>, a real number,
  separate the same buffer sizes.
\<close>

lemma bufferLimit_real:
  "0 < n \<Longrightarrow> (bufferLimit m < int n) = (real_of_int m * 1.1 < real n)"
proof (cases "0 \<le> m")
  case True
  have "(m * 11 div 10 < int n) = (m * 11 < int n * 10)"
    by linarith
  also have "\<dots> = (real_of_int (m * 11) < real_of_int (int n * 10))"
    by (simp only: of_int_less_iff)
  also have "\<dots> = (real_of_int m * 1.1 < real n)"
    by simp
  finally show ?thesis using True by (simp add: bufferLimit_def)
next
  case False
  assume "0 < n"
  have "bufferLimit m \<le> 0" using False by (simp add: bufferLimit_def)
  moreover have "real_of_int m * 1.1 < 0" using False by simp
  ultimately show ?thesis using \<open>0 < n\<close> by simp
qed

lemmas line_defs =
  lineServer_def lineParser_def lineHandler_def lineSerializer_def freshConnection_def

text \<open>
  C4. When the parser's verdict is \<^verbatim>\<open>Incomplete\<close>, the loop returns at once. If the size
  of the buffer is more than \<open>MAX_CONTENT_SIZE \<times> 1.1\<close>, the connection has logged the
  event, written the response 413 \<^verbatim>\<open>Payload Too Large\<close> with the connection header
  \<^verbatim>\<open>close\<close>, and closed the socket, in this order; otherwise, also at a size equal to the
  limit, it is left as it was.
\<close>

theorem incomplete_413_iff_over_ceiling:
  assumes "m_receivedData c \<noteq> []"
    and "status (parse d (m_receivedData c)) = Incomplete"
  shows "(real_of_int (MAX_CONTENT_SIZE d) * 1.1 < real (length (m_receivedData c)) \<longrightarrow>
            drain d c =
              Some (c\<lparr>m_socket :=
                         socket_close (socket_write (toByteArray d (payloadTooLarge d)) (m_socket c)),
                       events := events c @
                         [Logged (RequestSizeExceeds (bufferLimit (MAX_CONTENT_SIZE d))
                                    (peerAddress (m_socket c))),
                          Written (toByteArray d (payloadTooLarge d)),
                          Closed]\<rparr>)
            \<and> status_code (payloadTooLarge d) = 413
            \<and> status_text (payloadTooLarge d) = ''Payload Too Large''
            \<and> headers (payloadTooLarge d) (HEADER_CONNECTION d) = Some ''close'')
       \<and> (\<not> real_of_int (MAX_CONTENT_SIZE d) * 1.1 < real (length (m_receivedData c)) \<longrightarrow>
            drain d c = Some c)
       \<and> (int (length (m_receivedData c)) = bufferLimit (MAX_CONTENT_SIZE d) \<longrightarrow>
            drain d c = Some c)"
proof -
  have pos: "0 < length (m_receivedData c)"
    using assms(1) by simp
  note lim = bufferLimit_real [OF pos, of "MAX_CONTENT_SIZE d"]
  note run = drain_Incomplete [OF assms]
  have resp: "status_code (payloadTooLarge d) = 413
      \<and> status_text (payloadTooLarge d) = ''Payload Too Large''
      \<and> headers (payloadTooLarge d) (HEADER_CONNECTION d) = Some ''close''"
    by (simp add: payloadTooLarge_def mkResponse_def)
  show ?thesis
  proof (cases "bufferLimit (MAX_CONTENT_SIZE d) < int (length (m_receivedData c))")
    case True
    with run have "drain d c =
        Some (c\<lparr>m_socket :=
                   socket_close (socket_write (toByteArray d (payloadTooLarge d)) (m_socket c)),
                 events := events c @
                   [Logged (RequestSizeExceeds (bufferLimit (MAX_CONTENT_SIZE d))
                              (peerAddress (m_socket c))),
                    Written (toByteArray d (payloadTooLarge d)),
                    Closed]\<rparr>)"
      by (simp add: onIncomplete_def effect_defs)
    with True lim resp show ?thesis by simp
  next
    case False
    with run have "drain d c = Some c"
      by (simp add: onIncomplete_def)
    with False lim show ?thesis by simp
  qed
qed

theorem incomplete_413_iff_over_ceiling_witness:
  "m_receivedData (freshConnection\<lparr>m_receivedData := ''abc''\<rparr>) \<noteq> []
   \<and> status (parse lineServer ''abc'') = Incomplete
   \<and> \<not> real_of_int (MAX_CONTENT_SIZE lineServer) * 1.1 < real (length ''abc'')
   \<and> drain lineServer (freshConnection\<lparr>m_receivedData := ''abc''\<rparr>)
       = Some (freshConnection\<lparr>m_receivedData := ''abc''\<rparr>)
   \<and> real_of_int (MAX_CONTENT_SIZE (lineServer\<lparr>MAX_CONTENT_SIZE := 2\<rparr>)) * 1.1 < real (length ''abc'')
   \<and> map_option events
        (drain (lineServer\<lparr>MAX_CONTENT_SIZE := 2\<rparr>) (freshConnection\<lparr>m_receivedData := ''abc''\<rparr>))
       = Some [Logged (RequestSizeExceeds 2 ''10.0.0.2''), Written ''Payload Too Large||'', Closed]
   \<and> map_option (\<lambda>c. isOpen (m_socket c))
        (drain (lineServer\<lparr>MAX_CONTENT_SIZE := 2\<rparr>) (freshConnection\<lparr>m_receivedData := ''abc''\<rparr>))
       = Some False"
proof -
  let ?c = "freshConnection\<lparr>m_receivedData := ''abc''\<rparr>"
  let ?d = "lineServer\<lparr>MAX_CONTENT_SIZE := 2\<rparr>"
  have buf: "m_receivedData ?c \<noteq> []"
    by simp
  have st: "status (parse lineServer (m_receivedData ?c)) = Incomplete"
    by (simp add: line_defs)
  have st2: "status (parse ?d (m_receivedData ?c)) = Incomplete"
    by (simp add: line_defs)
  have under: "\<not> real_of_int (MAX_CONTENT_SIZE lineServer) * 1.1 < real (length (m_receivedData ?c))"
    by (simp add: line_defs)
  have over: "real_of_int (MAX_CONTENT_SIZE ?d) * 1.1 < real (length (m_receivedData ?c))"
    by simp
  from incomplete_413_iff_over_ceiling [OF buf st] under
  have one: "drain lineServer ?c = Some ?c"
    by blast
  from incomplete_413_iff_over_ceiling [OF buf st2] over
  have two: "drain ?d ?c =
      Some (?c\<lparr>m_socket := socket_close (socket_write (toByteArray ?d (payloadTooLarge ?d)) (m_socket ?c)),
               events := events ?c @
                 [Logged (RequestSizeExceeds (bufferLimit (MAX_CONTENT_SIZE ?d)) (peerAddress (m_socket ?c))),
                  Written (toByteArray ?d (payloadTooLarge ?d)), Closed]\<rparr>)"
    by blast
  have ev: "map_option events (drain ?d ?c)
      = Some [Logged (RequestSizeExceeds 2 ''10.0.0.2''), Written ''Payload Too Large||'', Closed]"
    unfolding two
    by (simp add: line_defs payloadTooLarge_def mkResponse_def bufferLimit_def header_value_def)
  have cl: "map_option (\<lambda>c. isOpen (m_socket c)) (drain ?d ?c) = Some False"
    unfolding two by (simp add: socket_close_def)
  from buf st under one over ev cl show ?thesis
    by simp
qed

text \<open>
  C5. A pass through the loop in which the parser reports \<^verbatim>\<open>OK\<close> goes on to the next pass
  with the frame cut off the front of the buffer: for a frame size between 0 and the size of
  the buffer, the buffer was the frame followed by what is left, and what is left is shorter
  by exactly the frame size. A pass with any other verdict returns and leaves the buffer as
  it was.
\<close>

theorem ok_removes_exactly_the_frame:
  "(status (parse d (m_receivedData c)) = OK \<longrightarrow>
      fst (iteration d c)
      \<and> m_receivedData (snd (iteration d c))
          = drop (nat (frameSize (parse d (m_receivedData c)))) (m_receivedData c)
      \<and> (m_receivedData c \<noteq> [] \<longrightarrow> drain d c = drain d (snd (iteration d c)))
      \<and> (0 \<le> frameSize (parse d (m_receivedData c))
           \<and> frameSize (parse d (m_receivedData c)) \<le> int (length (m_receivedData c)) \<longrightarrow>
           m_receivedData c
             = take (nat (frameSize (parse d (m_receivedData c)))) (m_receivedData c)
                 @ m_receivedData (snd (iteration d c))
           \<and> int (length (m_receivedData (snd (iteration d c))))
               = int (length (m_receivedData c)) - frameSize (parse d (m_receivedData c))))
   \<and> (status (parse d (m_receivedData c)) \<noteq> OK \<longrightarrow>
        \<not> fst (iteration d c) \<and> m_receivedData (snd (iteration d c)) = m_receivedData c)"
proof (cases "status (parse d (m_receivedData c))")
  case OK
  then have it: "iteration d c = (True, onOK d (parse d (m_receivedData c)) c)"
    by (simp add: iteration_def)
  show ?thesis
    using OK drain_OK [of c d] by (auto simp: it onOK_buffer)
next
  case Incomplete
  then show ?thesis by (simp add: iteration_def onIncomplete_def effect_defs)
next
  case BadRequest
  then show ?thesis by (simp add: iteration_def onBadRequest_def effect_defs)
qed

theorem ok_removes_exactly_the_frame_witness:
  "status (parse lineServer [CHR ''a'', CHR 0x0A, CHR ''b'']) = OK
   \<and> frameSize (parse lineServer [CHR ''a'', CHR 0x0A, CHR ''b'']) = 2
   \<and> m_receivedData
        (snd (iteration lineServer (freshConnection\<lparr>m_receivedData := [CHR ''a'', CHR 0x0A, CHR ''b'']\<rparr>)))
       = ''b''
   \<and> status (parse lineServer ''b'') = Incomplete
   \<and> m_receivedData (snd (iteration lineServer (freshConnection\<lparr>m_receivedData := ''b''\<rparr>))) = ''b''"
proof -
  let ?c = "freshConnection\<lparr>m_receivedData := [CHR ''a'', CHR 0x0A, CHR ''b'']\<rparr>"
  let ?c' = "freshConnection\<lparr>m_receivedData := ''b''\<rparr>"
  have ok: "status (parse lineServer (m_receivedData ?c)) = OK"
    and size: "frameSize (parse lineServer (m_receivedData ?c)) = 2"
    by (simp_all add: line_defs)
  have inc: "status (parse lineServer (m_receivedData ?c')) = Incomplete"
    by (simp add: line_defs)
  from ok_removes_exactly_the_frame [of lineServer ?c] ok size
  have "m_receivedData (snd (iteration lineServer ?c)) = ''b''"
    by simp
  moreover from ok_removes_exactly_the_frame [of lineServer ?c'] inc
  have "m_receivedData (snd (iteration lineServer ?c')) = ''b''"
    by simp
  ultimately show ?thesis
    using ok size inc by simp
qed

section \<open>Properties of the expiry query\<close>

text \<open>
  C6, as stated, fails for a negative timeout: the timer takes it for "never", so the
  connection has not expired although nothing is pending and the time elapsed (1000) is
  more than the timeout (-1).
\<close>

theorem hasExpired_negative_timeout:
  "bytesAvailable (m_socket freshConnection) = 0
   \<and> bytesToWrite (m_socket freshConnection) = 0
   \<and> (- 1) < 1000 - m_idleTimer freshConnection
   \<and> \<not> hasExpired 1000 (- 1) freshConnection"
  by (simp add: hasExpired_def timer_hasExpired_def freshConnection_def bytesAvailable_def
      bytesToWrite_def)

text \<open>
  C6, amended. \<^verbatim>\<open>hasExpired(timeout)\<close> is true exactly when the socket has no unread bytes
  and no unflushed bytes, the timeout is not negative, and the time elapsed since the timer
  was last restarted is more than the timeout. It is a function of the connection and the
  clock that returns a truth value only: it changes nothing.
\<close>

theorem hasExpired_iff:
  "hasExpired now timeout c =
     (bytesAvailable (m_socket c) = 0
      \<and> bytesToWrite (m_socket c) = 0
      \<and> 0 \<le> timeout
      \<and> timeout < now - m_idleTimer c)"
  by (auto simp: hasExpired_def timer_hasExpired_def)

section \<open>Pipelined requests\<close>

lemma concat_take_drop:
  "concat (map snd (take i fs)) @ concat (map snd (drop i fs)) @ rest = concat (map snd fs) @ rest"
proof -
  have "concat (map snd (take i fs)) @ concat (map snd (drop i fs)) = concat (map snd (take i fs @ drop i fs))"
    by (simp only: map_append concat_append)
  then show ?thesis by simp
qed

text \<open>The first \<open>i\<close> of the requests a buffer holds, with the others as what follows them.\<close>

lemma framed_take:
  "framed d frames rest \<Longrightarrow> framed d (take i frames) (concat (map snd (drop i frames)) @ rest)"
proof (induction frames arbitrary: i)
  case Nil
  then show ?case by simp
next
  case (Cons f fs)
  show ?case
  proof (cases i)
    case 0
    then show ?thesis by simp
  next
    case (Suc j)
    from Cons.prems have "framed d fs rest"
      by simp
    from Cons.IH [OF this] Cons.prems show ?thesis
      by (simp add: Suc concat_take_drop)
  qed
qed

text \<open>The run over a buffer that begins with complete requests, by induction over them.\<close>

lemma drain_served:
  assumes "framed d frames rest"
    and "m_receivedData c = concat (map snd frames) @ rest"
    and "isOpen (m_socket c)"
  shows "drain d c = drain d (served d frames c)
     \<and> m_receivedData (served d frames c) = rest
     \<and> isOpen (m_socket (served d frames c))
     \<and> writeBuffer (m_socket (served d frames c)) =
         writeBuffer (m_socket c)
         @ concat (map (\<lambda>f. toByteArray d (okResponse d (fst f) (socketEnvironment (m_socket c)))) frames)
     \<and> events (served d frames c) =
         events c @ concat (map (\<lambda>f. exchange d (socketEnvironment (m_socket c)) (fst f)) frames)"
  using assms
proof (induction frames arbitrary: c)
  case Nil
  then show ?case by simp
next
  case (Cons f fs)
  let ?buf = "snd f @ concat (map snd fs) @ rest"
  let ?c1 = "onOK d (parse d (m_receivedData c)) c"
  from Cons.prems have buf: "m_receivedData c = ?buf"
    by simp
  from Cons.prems have f: "snd f \<noteq> []" "status (parse d ?buf) = OK"
    "request (parse d ?buf) = fst f" "frameSize (parse d ?buf) = int (length (snd f))"
    "framed d fs rest"
    by simp_all
  have step: "drain d c = drain d ?c1"
    using f(1,2) by (intro drain_OK) (simp_all add: buf)
  have buf1: "m_receivedData ?c1 = concat (map snd fs) @ rest"
    by (simp add: onOK_buffer buf f(4))
  have open1: "isOpen (m_socket ?c1)"
    using Cons.prems(3) by (simp add: onOK_isOpen)
  have ev1: "events ?c1 = events c @ exchange d (socketEnvironment (m_socket c)) (fst f)"
    by (simp add: onOK_events buf f(3))
  have wb1: "writeBuffer (m_socket ?c1) =
      writeBuffer (m_socket c) @ toByteArray d (okResponse d (fst f) (socketEnvironment (m_socket c)))"
    using Cons.prems(3) by (simp add: onOK_writeBuffer buf f(3))
  note IH = Cons.IH [OF f(5) buf1 open1]
  have served: "served d (f # fs) c = served d fs ?c1"
    by simp
  have "drain d c = drain d (served d fs ?c1)"
    using IH step by simp
  moreover have "m_receivedData (served d fs ?c1) = rest"
    using IH by simp
  moreover have "isOpen (m_socket (served d fs ?c1))"
    using IH by simp
  moreover have "writeBuffer (m_socket (served d fs ?c1)) =
      writeBuffer (m_socket c)
      @ concat (map (\<lambda>f. toByteArray d (okResponse d (fst f) (socketEnvironment (m_socket c)))) (f # fs))"
    using IH wb1 by (simp add: onOK_environment)
  moreover have "events (served d fs ?c1) =
      events c @ concat (map (\<lambda>f. exchange d (socketEnvironment (m_socket c)) (fst f)) (f # fs))"
    using IH ev1 by (simp add: onOK_environment)
  ultimately show ?case
    unfolding served by blast
qed

text \<open>
  C8. When the buffer of a connection with an open socket holds complete requests back to
  back, one run of the loop serves them all, front to back. The run is the run from the
  connection in which every one of them has been handed to the handler and answered: there
  the socket is open and holds, behind the bytes it had to write, the bytes of the
  responses in the order of the requests; the events are the exchanges in that order (each
  request handed over, then its response written); the buffer is what followed the last
  request. The same holds after any number \<open>i\<close> of the requests: the run passes through
  the connection whose socket holds the responses to the first \<open>i\<close> requests and whose
  buffer begins with the next request, and it is on that buffer that the parser is asked
  for the next request. When nothing follows the last request, the run ends there; with a
  parser that keeps to its contract the run ends whatever follows, and the bytes given to
  the socket and the events begin as said.
\<close>

theorem drain_serves_in_arrival_order:
  assumes "framed d frames rest"
    and "m_receivedData c = concat (map snd frames) @ rest"
    and "isOpen (m_socket c)"
  shows "drain d c = drain d (served d frames c)
     \<and> m_receivedData (served d frames c) = rest
     \<and> isOpen (m_socket (served d frames c))
     \<and> writeBuffer (m_socket (served d frames c)) =
         writeBuffer (m_socket c)
         @ concat (map (\<lambda>f. toByteArray d (okResponse d (fst f) (socketEnvironment (m_socket c)))) frames)
     \<and> events (served d frames c) =
         events c @ concat (map (\<lambda>f. exchange d (socketEnvironment (m_socket c)) (fst f)) frames)
     \<and> (\<forall>i. drain d c = drain d (served d (take i frames) c)
            \<and> m_receivedData (served d (take i frames) c) = concat (map snd (drop i frames)) @ rest
            \<and> isOpen (m_socket (served d (take i frames) c))
            \<and> writeBuffer (m_socket (served d (take i frames) c)) =
                writeBuffer (m_socket c)
                @ concat (map (\<lambda>f. toByteArray d (okResponse d (fst f) (socketEnvironment (m_socket c))))
                            (take i frames)))
     \<and> (rest = [] \<longrightarrow> drain d c = Some (served d frames c))
     \<and> (framesStable d \<longrightarrow>
          (\<exists>c' more sent. drain d c = Some c'
             \<and> events c' =
                 events c
                 @ concat (map (\<lambda>f. exchange d (socketEnvironment (m_socket c)) (fst f)) frames)
                 @ more
             \<and> writeBuffer (m_socket c') =
                 writeBuffer (m_socket c)
                 @ concat (map (\<lambda>f. toByteArray d (okResponse d (fst f) (socketEnvironment (m_socket c)))) frames)
                 @ sent))"
proof -
  note core = drain_served [OF assms]
  have part: "drain d c = drain d (served d (take i frames) c)
      \<and> m_receivedData (served d (take i frames) c) = concat (map snd (drop i frames)) @ rest
      \<and> isOpen (m_socket (served d (take i frames) c))
      \<and> writeBuffer (m_socket (served d (take i frames) c)) =
          writeBuffer (m_socket c)
          @ concat (map (\<lambda>f. toByteArray d (okResponse d (fst f) (socketEnvironment (m_socket c))))
                      (take i frames))" for i
  proof -
    have fr: "framed d (take i frames) (concat (map snd (drop i frames)) @ rest)"
      using assms(1) by (rule framed_take)
    have buf: "m_receivedData c = concat (map snd (take i frames)) @ concat (map snd (drop i frames)) @ rest"
      by (simp only: concat_take_drop assms(2))
    from drain_served [OF fr buf assms(3)] show ?thesis
      by blast
  qed
  have ends: "drain d c = Some (served d frames c)" if "rest = []"
  proof -
    from core that have "m_receivedData (served d frames c) = []"
      by simp
    then have "drain d (served d frames c) = Some (served d frames c)"
      by (rule drain_empty)
    with core show ?thesis
      by (simp only:)
  qed
  have total: "\<exists>c' more sent. drain d c = Some c'
        \<and> events c' =
            events c
            @ concat (map (\<lambda>f. exchange d (socketEnvironment (m_socket c)) (fst f)) frames)
            @ more
        \<and> writeBuffer (m_socket c') =
            writeBuffer (m_socket c)
            @ concat (map (\<lambda>f. toByteArray d (okResponse d (fst f) (socketEnvironment (m_socket c)))) frames)
            @ sent"
    if "framesStable d"
  proof -
    from drain_returns [OF that, of "served d frames c"] obtain c' more sent
      where "drain d (served d frames c) = Some c'"
        and "events c' = events (served d frames c) @ more"
        and "writeBuffer (m_socket c') = writeBuffer (m_socket (served d frames c)) @ sent"
      by blast
    with core have "drain d c = Some c'
        \<and> events c' =
            events c
            @ concat (map (\<lambda>f. exchange d (socketEnvironment (m_socket c)) (fst f)) frames)
            @ more
        \<and> writeBuffer (m_socket c') =
            writeBuffer (m_socket c)
            @ concat (map (\<lambda>f. toByteArray d (okResponse d (fst f) (socketEnvironment (m_socket c)))) frames)
            @ sent"
      by simp
    then show ?thesis by blast
  qed
  from core part ends total show ?thesis
    by blast
qed

theorem drain_serves_in_arrival_order_witness:
  "framed lineServer
     [(\<lparr>rq_headers = [''accept-encoding'' \<mapsto> ''gzip'']\<rparr>, [CHR ''g'', CHR ''z'', CHR ''i'', CHR ''p'', CHR 0x0A]),
      (\<lparr>rq_headers = [''accept-encoding'' \<mapsto> ''b'']\<rparr>, [CHR ''b'', CHR 0x0A])] []
   \<and> isOpen (m_socket
        (freshConnection\<lparr>m_receivedData := [CHR ''g'', CHR ''z'', CHR ''i'', CHR ''p'', CHR 0x0A, CHR ''b'', CHR 0x0A]\<rparr>))
   \<and> map_option (\<lambda>c. writeBuffer (m_socket c))
        (drain lineServer
           (freshConnection\<lparr>m_receivedData := [CHR ''g'', CHR ''z'', CHR ''i'', CHR ''p'', CHR 0x0A, CHR ''b'', CHR 0x0A]\<rparr>))
       = Some ''OK|gzip|gzipOK||b''
   \<and> map_option (\<lambda>c. responsesOf (events c))
        (drain lineServer
           (freshConnection\<lparr>m_receivedData := [CHR ''g'', CHR ''z'', CHR ''i'', CHR ''p'', CHR 0x0A, CHR ''b'', CHR 0x0A]\<rparr>))
       = Some [''OK|gzip|gzip'', ''OK||b'']
   \<and> map_option m_receivedData
        (drain lineServer
           (freshConnection\<lparr>m_receivedData := [CHR ''g'', CHR ''z'', CHR ''i'', CHR ''p'', CHR 0x0A, CHR ''b'', CHR 0x0A]\<rparr>))
       = Some []"
proof -
  let ?r1 = "\<lparr>rq_headers = [''accept-encoding'' \<mapsto> ''gzip'']\<rparr>"
  let ?r2 = "\<lparr>rq_headers = [''accept-encoding'' \<mapsto> ''b'']\<rparr>"
  let ?frames = "[(?r1, [CHR ''g'', CHR ''z'', CHR ''i'', CHR ''p'', CHR 0x0A]), (?r2, [CHR ''b'', CHR 0x0A])]"
  let ?c = "freshConnection\<lparr>m_receivedData := [CHR ''g'', CHR ''z'', CHR ''i'', CHR ''p'', CHR 0x0A, CHR ''b'', CHR 0x0A]\<rparr>"
  have fr: "framed lineServer ?frames []"
    by (simp add: lineServer_def lineParser_def)
  have buf: "m_receivedData ?c = concat (map snd ?frames) @ []"
    by simp
  have op: "isOpen (m_socket ?c)"
    by (simp add: freshConnection_def)
  note all = drain_serves_in_arrival_order [OF fr buf op]
  have run: "drain lineServer ?c = Some (served lineServer ?frames ?c)"
    using all by blast
  have left: "m_receivedData (served lineServer ?frames ?c) = []"
    using all by blast
  have wb: "writeBuffer (m_socket (served lineServer ?frames ?c)) =
         writeBuffer (m_socket ?c)
         @ concat (map (\<lambda>f. toByteArray lineServer
               (okResponse lineServer (fst f) (socketEnvironment (m_socket ?c)))) ?frames)"
    using all by blast
  have ev: "events (served lineServer ?frames ?c) =
         events ?c @ concat (map (\<lambda>f. exchange lineServer (socketEnvironment (m_socket ?c)) (fst f)) ?frames)"
    using all by blast
  have "responsesOf (events (served lineServer ?frames ?c)) = [''OK|gzip|gzip'', ''OK||b'']"
    unfolding ev
    by (simp add: exchange_def okResponse_def header_value_def mkResponse_def gzip_defs line_defs)
  moreover have "writeBuffer (m_socket (served lineServer ?frames ?c)) = ''OK|gzip|gzipOK||b''"
    unfolding wb
    by (simp add: okResponse_def header_value_def mkResponse_def gzip_defs line_defs)
  ultimately show ?thesis
    using fr op run left by simp
qed

section \<open>Properties of the ingestion\<close>

lemma resize_grow:
  "resize buf (length buf + n) junk = buf @ map junk [length buf ..< length buf + n]"
  by (simp add: resize_def)

lemma overwrite_tail:
  "overwrite (buf @ js) (length buf) got = buf @ got @ drop (length got) js"
  by (simp add: overwrite_def)

lemma chop_tail:
  "length got \<le> length js \<Longrightarrow>
   chop (length js - length got) (buf @ got @ drop (length got) js) = buf @ got"
  by (simp add: chop_def)

text \<open>Resize, copy and chop together append the bytes read, whatever the new region held.\<close>

lemma ingest:
  assumes "length got \<le> n"
  shows "(let filled = overwrite (resize buf (length buf + n) junk) (length buf) got
          in if int (length got) < int n then chop (n - nat (int (length got))) filled else filled)
         = buf @ got"
proof -
  let ?js = "map junk [length buf ..< length buf + n]"
  have len: "length ?js = n"
    by simp
  have filled: "overwrite (resize buf (length buf + n) junk) (length buf) got
      = buf @ got @ drop (length got) ?js"
    by (simp only: resize_grow overwrite_tail)
  show ?thesis
  proof (cases "length got < n")
    case True
    have "chop (length ?js - length got) (buf @ got @ drop (length got) ?js) = buf @ got"
      by (rule chop_tail) (simp add: assms)
    then show ?thesis
      using True by (simp only: Let_def filled len) simp
  next
    case False
    with assms have "length got = n"
      by simp
    then show ?thesis
      by (simp only: Let_def filled) simp
  qed
qed

lemma socket_read_open:
  assumes "isOpen s" and "0 \<le> k"
  shows "socket_read k (bytesAvailable s) s =
     (int (length (take (nat k) (readBuffer s))), take (nat k) (readBuffer s),
      s\<lparr>readBuffer := drop (nat k) (readBuffer s)\<rparr>)"
proof -
  have "take (min (nat k) (length (readBuffer s))) (readBuffer s) = take (nat k) (readBuffer s)"
    by (simp add: min_def)
  moreover have "drop (length (take (nat k) (readBuffer s))) (readBuffer s) = drop (nat k) (readBuffer s)"
    by (cases "nat k \<le> length (readBuffer s)") (simp_all add: min_def)
  ultimately show ?thesis
    using assms by (simp add: socket_read_def bytesAvailable_def Let_def)
qed

lemma read_delivers:
  assumes "isOpen (m_socket c)" and "0 \<le> k"
  shows "read d junk k c =
     drain d (c\<lparr>m_socket := (m_socket c)\<lparr>readBuffer := drop (nat k) (readBuffer (m_socket c))\<rparr>,
                m_receivedData := m_receivedData c @ take (nat k) (readBuffer (m_socket c))\<rparr>)"
proof -
  let ?got = "take (nat k) (readBuffer (m_socket c))"
  have le: "length ?got \<le> bytesAvailable (m_socket c)"
    by (simp add: bytesAvailable_def)
  have "read d junk k c =
      drain d (c\<lparr>m_socket := (m_socket c)\<lparr>readBuffer := drop (nat k) (readBuffer (m_socket c))\<rparr>,
        m_receivedData :=
          (let filled = overwrite (resize (m_receivedData c)
                            (length (m_receivedData c) + bytesAvailable (m_socket c)) junk)
                          (length (m_receivedData c)) ?got
           in if int (length ?got) < int (bytesAvailable (m_socket c))
              then chop (bytesAvailable (m_socket c) - nat (int (length ?got))) filled
              else filled)\<rparr>)"
    unfolding read_def Let_def socket_read_open [OF assms] by simp
  then show ?thesis
    by (simp only: ingest [OF le])
qed

text \<open>
  C9, as stated, fails when the bytes obtained complete a request: the loop that follows
  the read removes it. Three bytes are advertised, the read hands over two, a line and its
  line feed; the request is served and the buffer is empty at the end, not of size 0 + 2.
\<close>

theorem read_short_then_drained:
  "bytesAvailable (m_socket (freshConnection\<lparr>m_socket :=
       (m_socket freshConnection)\<lparr>readBuffer := [CHR ''a'', CHR 0x0A, CHR ''b'']\<rparr>\<rparr>)) = 3
   \<and> length (m_receivedData freshConnection) = 0
   \<and> map_option (\<lambda>c. length (m_receivedData c))
        (read lineServer (\<lambda>i. CHR ''?'') 2
           (freshConnection\<lparr>m_socket :=
              (m_socket freshConnection)\<lparr>readBuffer := [CHR ''a'', CHR 0x0A, CHR ''b'']\<rparr>\<rparr>))
       = Some 0
   \<and> map_option (\<lambda>c. responsesOf (events c))
        (read lineServer (\<lambda>i. CHR ''?'') 2
           (freshConnection\<lparr>m_socket :=
              (m_socket freshConnection)\<lparr>readBuffer := [CHR ''a'', CHR 0x0A, CHR ''b'']\<rparr>\<rparr>))
       = Some [''OK||a'']"
proof -
  let ?c = "freshConnection\<lparr>m_socket :=
      (m_socket freshConnection)\<lparr>readBuffer := [CHR ''a'', CHR 0x0A, CHR ''b'']\<rparr>\<rparr>"
  let ?c1 = "?c\<lparr>m_socket := (m_socket ?c)\<lparr>readBuffer := drop (nat 2) (readBuffer (m_socket ?c))\<rparr>,
      m_receivedData := m_receivedData ?c @ take (nat 2) (readBuffer (m_socket ?c))\<rparr>"
  let ?c2 = "onOK lineServer (parse lineServer (m_receivedData ?c1)) ?c1"
  have "read lineServer (\<lambda>i. CHR ''?'') 2 ?c = drain lineServer ?c1"
    by (rule read_delivers) (simp_all add: freshConnection_def)
  also have "\<dots> = drain lineServer ?c2"
    by (rule drain_OK) (simp_all add: line_defs)
  also have "\<dots> = Some ?c2"
    by (rule drain_empty) (simp add: onOK_buffer line_defs)
  finally have run: "read lineServer (\<lambda>i. CHR ''?'') 2 ?c = Some ?c2" .
  have "length (m_receivedData ?c2) = 0"
    by (simp add: onOK_buffer line_defs)
  moreover have "responsesOf (events ?c2) = [''OK||a'']"
    by (simp add: onOK_events exchange_def okResponse_def header_value_def mkResponse_def
        gzip_defs line_defs)
  ultimately show ?thesis
    unfolding run by (simp add: bytesAvailable_def freshConnection_def)
qed

text \<open>
  C9, amended. When a read on an open socket hands over fewer bytes than the socket
  advertised, the buffer on which the parse-drain loop starts is the buffer as it was,
  followed by exactly the bytes obtained: its size is the size before plus the number of
  bytes obtained, and nothing of the uninitialised region is left, whatever it held. When
  the loop then finds an incomplete request within the limit, this is the buffer at the
  end of the call.
\<close>

theorem read_short_delivery:
  assumes "isOpen (m_socket c)" and "0 \<le> k" and "nat k < bytesAvailable (m_socket c)"
  shows "read d junk k c =
           drain d (c\<lparr>m_socket := (m_socket c)\<lparr>readBuffer := drop (nat k) (readBuffer (m_socket c))\<rparr>,
                      m_receivedData := m_receivedData c @ take (nat k) (readBuffer (m_socket c))\<rparr>)
     \<and> length (m_receivedData c @ take (nat k) (readBuffer (m_socket c)))
         = length (m_receivedData c) + nat k
     \<and> (status (parse d (m_receivedData c @ take (nat k) (readBuffer (m_socket c)))) = Incomplete
         \<and> int (length (m_receivedData c) + nat k) \<le> bufferLimit (MAX_CONTENT_SIZE d) \<longrightarrow>
         read d junk k c =
           Some (c\<lparr>m_socket := (m_socket c)\<lparr>readBuffer := drop (nat k) (readBuffer (m_socket c))\<rparr>,
                   m_receivedData := m_receivedData c @ take (nat k) (readBuffer (m_socket c))\<rparr>))"
proof -
  let ?c1 = "c\<lparr>m_socket := (m_socket c)\<lparr>readBuffer := drop (nat k) (readBuffer (m_socket c))\<rparr>,
      m_receivedData := m_receivedData c @ take (nat k) (readBuffer (m_socket c))\<rparr>"
  have run: "read d junk k c = drain d ?c1"
    using assms(1,2) by (rule read_delivers)
  have len: "length (m_receivedData c @ take (nat k) (readBuffer (m_socket c)))
      = length (m_receivedData c) + nat k"
    using assms(3) by (simp add: bytesAvailable_def min_def)
  have "drain d ?c1 = Some ?c1"
    if inc: "status (parse d (m_receivedData ?c1)) = Incomplete"
      and lim: "int (length (m_receivedData ?c1)) \<le> bufferLimit (MAX_CONTENT_SIZE d)"
  proof (cases "m_receivedData ?c1 = []")
    case True
    then show ?thesis by (rule drain_empty)
  next
    case False
    have "onIncomplete d ?c1 = ?c1"
      using lim by (simp add: onIncomplete_def)
    with drain_Incomplete [OF False inc] show ?thesis
      by (simp only:)
  qed
  with run len show ?thesis
    by simp
qed

theorem read_short_delivery_witness:
  "isOpen (m_socket (freshConnection\<lparr>m_socket := (m_socket freshConnection)\<lparr>readBuffer := ''abc''\<rparr>\<rparr>))
   \<and> nat 2 < bytesAvailable (m_socket
         (freshConnection\<lparr>m_socket := (m_socket freshConnection)\<lparr>readBuffer := ''abc''\<rparr>\<rparr>))
   \<and> read lineServer (\<lambda>i. CHR ''?'') 2
        (freshConnection\<lparr>m_socket := (m_socket freshConnection)\<lparr>readBuffer := ''abc''\<rparr>\<rparr>)
       = Some (freshConnection\<lparr>m_socket := (m_socket freshConnection)\<lparr>readBuffer := ''c''\<rparr>,
                 m_receivedData := ''ab''\<rparr>)"
proof -
  let ?c = "freshConnection\<lparr>m_socket := (m_socket freshConnection)\<lparr>readBuffer := ''abc''\<rparr>\<rparr>"
  have op: "isOpen (m_socket ?c)"
    by (simp add: freshConnection_def)
  have k: "(0::int) \<le> 2"
    by simp
  have short: "nat 2 < bytesAvailable (m_socket ?c)"
    by (simp add: bytesAvailable_def)
  have inc: "status (parse lineServer (m_receivedData ?c @ take (nat 2) (readBuffer (m_socket ?c)))) = Incomplete"
    by (simp add: line_defs)
  have lim: "int (length (m_receivedData ?c) + nat 2) \<le> bufferLimit (MAX_CONTENT_SIZE lineServer)"
    by (simp add: line_defs bufferLimit_def)
  from read_short_delivery [OF op k short, of lineServer "\<lambda>i. CHR ''?''"] inc lim
  have "read lineServer (\<lambda>i. CHR ''?'') 2 ?c =
      Some (?c\<lparr>m_socket := (m_socket ?c)\<lparr>readBuffer := drop (nat 2) (readBuffer (m_socket ?c))\<rparr>,
               m_receivedData := m_receivedData ?c @ take (nat 2) (readBuffer (m_socket ?c))\<rparr>)"
    by blast
  then have "read lineServer (\<lambda>i. CHR ''?'') 2 ?c =
      Some (freshConnection\<lparr>m_socket := (m_socket freshConnection)\<lparr>readBuffer := ''c''\<rparr>,
              m_receivedData := ''ab''\<rparr>)"
    by (simp add: freshConnection_def)
  with op short show ?thesis
    by simp
qed

section \<open>Bytes delivered in chunks and at once\<close>

text \<open>
  A run that ends with the socket open has served the complete requests and stopped at an
  empty buffer or an incomplete request. With more bytes behind the buffer from the start,
  the run does the same and then goes on as the run from where the first one stopped.
\<close>

lemma drain_more_bytes:
  assumes "framesStable d"
  shows "drain d c = Some c1 \<Longrightarrow> isOpen (m_socket c1) \<Longrightarrow>
         drain d (c\<lparr>m_receivedData := m_receivedData c @ e, m_idleTimer := t\<rparr>) =
         drain d (c1\<lparr>m_receivedData := m_receivedData c1 @ e, m_idleTimer := t\<rparr>)
         \<and> readBuffer (m_socket c1) = readBuffer (m_socket c)"
proof (induction "length (m_receivedData c)" arbitrary: c rule: less_induct)
  case less
  show ?case
  proof (cases "m_receivedData c = []")
    case True
    with less.prems show ?thesis by (simp add: drain_empty)
  next
    case False
    show ?thesis
    proof (cases "status (parse d (m_receivedData c))")
      case OK
      let ?r = "parse d (m_receivedData c)"
      from assms OK have fs: "0 < frameSize ?r" "frameSize ?r \<le> int (length (m_receivedData c))"
        and ext: "parse d (m_receivedData c @ e) = ?r"
        by (simp_all add: framesStable_def)
      from False fs have shorter: "length (m_receivedData (onOK d ?r c)) < length (m_receivedData c)"
        by (simp add: onOK_buffer)
      have run: "drain d (onOK d ?r c) = Some c1"
        using less.prems(1) by (simp add: drain_OK [OF False OK])
      have "drain d (c\<lparr>m_receivedData := m_receivedData c @ e, m_idleTimer := t\<rparr>) =
            drain d (onOK d ?r (c\<lparr>m_receivedData := m_receivedData c @ e, m_idleTimer := t\<rparr>))"
        using OK False by (subst drain_OK) (simp_all add: ext)
      also have "\<dots> =
          drain d ((onOK d ?r c)\<lparr>m_receivedData := m_receivedData (onOK d ?r c) @ e, m_idleTimer := t\<rparr>)"
        by (simp only: onOK_more_bytes [OF fs])
      finally show ?thesis
        using less.hyps [OF shorter run less.prems(2)] by (simp add: onOK_readBuffer)
    next
      case Incomplete
      with less.prems onIncomplete_cases [of d c] show ?thesis
        by (auto simp: drain_Incomplete [OF False])
    next
      case BadRequest
      with less.prems onBadRequest_closed [of d c] show ?thesis
        by (auto simp: drain_BadRequest [OF False])
    qed
  qed
qed

lemma deliver_open:
  assumes "isOpen (m_socket c)"
  shows "deliver d junk x c =
     drain d (c\<lparr>m_socket := (m_socket c)\<lparr>readBuffer := []\<rparr>,
                m_receivedData := m_receivedData c @ readBuffer (m_socket c) @ snd x,
                m_idleTimer := fst x\<rparr>)"
proof -
  let ?sock = "(m_socket c)\<lparr>readBuffer := readBuffer (m_socket c) @ snd x\<rparr>"
  let ?c = "c\<lparr>m_socket := ?sock, m_idleTimer := fst x\<rparr>"
  have "deliver d junk x c = read d junk (int (length (readBuffer ?sock))) ?c"
    using assms by (simp add: deliver_def onBytesAvailable_def bytesAvailable_def Let_def)
  also have "\<dots> =
      drain d (?c\<lparr>m_socket := (m_socket ?c)\<lparr>readBuffer :=
                    drop (nat (int (length (readBuffer ?sock)))) (readBuffer (m_socket ?c))\<rparr>,
                  m_receivedData := m_receivedData ?c
                    @ take (nat (int (length (readBuffer ?sock)))) (readBuffer (m_socket ?c))\<rparr>)"
    by (rule read_delivers) (simp_all add: assms)
  finally show ?thesis
    by (cases c) simp
qed

lemma deliver_closed: "\<not> isOpen (m_socket c) \<Longrightarrow> deliver d junk x c = Some c"
  by (simp add: deliver_def)

lemma deliverAll_closed: "\<not> isOpen (m_socket c) \<Longrightarrow> deliverAll d junk xs c = Some c"
  by (induction xs) (simp_all add: deliver_closed)

lemma deliverAll_single: "deliverAll d junk [x] c = deliver d junk x c"
  by (cases "deliver d junk x c") simp_all

lemma lineParser_framesStable:
  assumes "parse d = lineParser"
  shows "framesStable d"
  unfolding framesStable_def
proof (intro allI impI)
  fix b
  let ?P = "\<lambda>c. c \<noteq> CHR 0x0A"
  assume ok: "status (parse d b) = OK"
  then have bang: "CHR ''!'' \<notin> set (takeWhile ?P b)"
    and len: "length (takeWhile ?P b) \<noteq> length b"
    by (auto simp: assms lineParser_def Let_def split: if_splits)
  have "length (takeWhile ?P b) \<le> length b"
    by (rule length_takeWhile_le)
  with len have lt: "length (takeWhile ?P b) < length b"
    by simp
  have "\<not> (\<forall>x\<in>set b. ?P x)"
  proof
    assume "\<forall>x\<in>set b. ?P x"
    then have "takeWhile ?P b = b"
      by (simp only: takeWhile_eq_all_conv)
    with len show False by simp
  qed
  then obtain x where x: "x \<in> set b" "\<not> ?P x"
    by blast
  have same: "takeWhile ?P (b @ e) = takeWhile ?P b" for e
    using x by (rule takeWhile_append1)
  have "parse d (b @ e) = parse d b" for e
    using bang lt by (simp add: assms lineParser_def Let_def same)
  moreover have "0 < frameSize (parse d b)"
    "frameSize (parse d b) \<le> int (length b)"
    using bang lt by (simp_all add: assms lineParser_def Let_def)
  ultimately
  show "0 < frameSize (parse d b) \<and> frameSize (parse d b) \<le> int (length b)
      \<and> (\<forall>e. parse d (b @ e) = parse d b)"
    by simp
qed

text \<open>
  C7, as stated, fails when a chunk that is not the last makes the connection close the
  socket. A chunk that ends in a malformed request is answered 400 and the socket is
  closed, so the bytes of the later chunks never reach the buffer; delivered at once, the same bytes are all in the
  buffer when the socket is closed. And a chunk that leaves an incomplete request larger
  than the limit is answered 413 (here with a limit of 2 bytes), while the same bytes
  delivered at once form a complete request, which is handed to the handler and answered.
\<close>

theorem chunked_delivery_differs:
  "map_option m_receivedData
     (deliverAll lineServer (\<lambda>i. CHR ''?'')
        [(1, [CHR ''!'', CHR 0x0A]), (2, [CHR ''a'', CHR 0x0A])] freshConnection)
     = Some [CHR ''!'', CHR 0x0A]
   \<and> map_option m_receivedData
       (deliverAll lineServer (\<lambda>i. CHR ''?'')
          [(2, [CHR ''!'', CHR 0x0A, CHR ''a'', CHR 0x0A])] freshConnection)
     = Some [CHR ''!'', CHR 0x0A, CHR ''a'', CHR 0x0A]
   \<and> map_option m_receivedData
       (deliverAll lineServer (\<lambda>i. CHR ''?'')
          [(1, [CHR ''!'', CHR 0x0A]), (2, [CHR ''a'', CHR 0x0A])] freshConnection)
     \<noteq> map_option m_receivedData
         (deliverAll lineServer (\<lambda>i. CHR ''?'')
            [(2, [CHR ''!'', CHR 0x0A, CHR ''a'', CHR 0x0A])] freshConnection)
   \<and> map_option (\<lambda>c. (requestsOf (events c), responsesOf (events c)))
       (deliverAll (lineServer\<lparr>MAX_CONTENT_SIZE := 2\<rparr>) (\<lambda>i. CHR ''?'')
          [(1, ''abc''), (2, [CHR 0x0A])] freshConnection)
     = Some ([], [''Payload Too Large||''])
   \<and> map_option (\<lambda>c. (requestsOf (events c), responsesOf (events c)))
       (deliverAll (lineServer\<lparr>MAX_CONTENT_SIZE := 2\<rparr>) (\<lambda>i. CHR ''?'')
          [(2, [CHR ''a'', CHR ''b'', CHR ''c'', CHR 0x0A])] freshConnection)
     = Some ([\<lparr>rq_headers = [''accept-encoding'' \<mapsto> ''abc'']\<rparr>], [''OK||abc''])"
proof -
  let ?J = "\<lambda>i::nat. CHR ''?''"
  let ?d = "lineServer\<lparr>MAX_CONTENT_SIZE := 2\<rparr>"
  let ?c1 = "freshConnection\<lparr>m_socket := (m_socket freshConnection)\<lparr>readBuffer := []\<rparr>,
      m_receivedData := m_receivedData freshConnection @ readBuffer (m_socket freshConnection)
        @ [CHR ''!'', CHR 0x0A],
      m_idleTimer := 1\<rparr>"
  let ?c2 = "freshConnection\<lparr>m_socket := (m_socket freshConnection)\<lparr>readBuffer := []\<rparr>,
      m_receivedData := m_receivedData freshConnection @ readBuffer (m_socket freshConnection)
        @ [CHR ''!'', CHR 0x0A, CHR ''a'', CHR 0x0A],
      m_idleTimer := 2\<rparr>"
  let ?c3 = "freshConnection\<lparr>m_socket := (m_socket freshConnection)\<lparr>readBuffer := []\<rparr>,
      m_receivedData := m_receivedData freshConnection @ readBuffer (m_socket freshConnection)
        @ ''abc'',
      m_idleTimer := 1\<rparr>"
  let ?c4 = "freshConnection\<lparr>m_socket := (m_socket freshConnection)\<lparr>readBuffer := []\<rparr>,
      m_receivedData := m_receivedData freshConnection @ readBuffer (m_socket freshConnection)
        @ [CHR ''a'', CHR ''b'', CHR ''c'', CHR 0x0A],
      m_idleTimer := 2\<rparr>"
  have op: "isOpen (m_socket freshConnection)"
    by (simp add: freshConnection_def)
  have "deliver lineServer ?J (1, [CHR ''!'', CHR 0x0A]) freshConnection = drain lineServer ?c1"
    using deliver_open [OF op, of lineServer ?J "(1, [CHR ''!'', CHR 0x0A])"] by simp
  also have "\<dots> = Some (onBadRequest lineServer ?c1)"
    by (rule drain_BadRequest) (simp_all add: line_defs)
  finally have first: "deliver lineServer ?J (1, [CHR ''!'', CHR 0x0A]) freshConnection
      = Some (onBadRequest lineServer ?c1)" .
  have chunked: "deliverAll lineServer ?J [(1, [CHR ''!'', CHR 0x0A]), (2, [CHR ''a'', CHR 0x0A])]
      freshConnection = Some (onBadRequest lineServer ?c1)"
    by (simp add: first deliver_closed onBadRequest_closed)
  have "deliver lineServer ?J (2, [CHR ''!'', CHR 0x0A, CHR ''a'', CHR 0x0A]) freshConnection
      = drain lineServer ?c2"
    using deliver_open [OF op, of lineServer ?J "(2, [CHR ''!'', CHR 0x0A, CHR ''a'', CHR 0x0A])"]
    by simp
  also have "\<dots> = Some (onBadRequest lineServer ?c2)"
    by (rule drain_BadRequest) (simp_all add: line_defs)
  finally have once: "deliverAll lineServer ?J [(2, [CHR ''!'', CHR 0x0A, CHR ''a'', CHR 0x0A])]
      freshConnection = Some (onBadRequest lineServer ?c2)"
    by simp
  have "deliver ?d ?J (1, ''abc'') freshConnection = drain ?d ?c3"
    using deliver_open [OF op, of ?d ?J "(1, ''abc'')"] by simp
  also have "\<dots> = Some (onIncomplete ?d ?c3)"
    by (rule drain_Incomplete) (simp_all add: line_defs)
  finally have large: "deliver ?d ?J (1, ''abc'') freshConnection = Some (onIncomplete ?d ?c3)" .
  have closed: "\<not> isOpen (m_socket (onIncomplete ?d ?c3))"
    by (simp add: onIncomplete_def effect_defs bufferLimit_def freshConnection_def)
  have chunked': "deliverAll ?d ?J [(1, ''abc''), (2, [CHR 0x0A])] freshConnection
      = Some (onIncomplete ?d ?c3)"
    by (simp add: large deliver_closed closed)
  have "deliver ?d ?J (2, [CHR ''a'', CHR ''b'', CHR ''c'', CHR 0x0A]) freshConnection = drain ?d ?c4"
    using deliver_open [OF op, of ?d ?J "(2, [CHR ''a'', CHR ''b'', CHR ''c'', CHR 0x0A])"] by simp
  also have "\<dots> = drain ?d (onOK ?d (parse ?d (m_receivedData ?c4)) ?c4)"
    by (rule drain_OK) (simp_all add: line_defs)
  also have "\<dots> = Some (onOK ?d (parse ?d (m_receivedData ?c4)) ?c4)"
    by (rule drain_empty) (simp add: onOK_buffer line_defs)
  finally have once': "deliverAll ?d ?J [(2, [CHR ''a'', CHR ''b'', CHR ''c'', CHR 0x0A])]
      freshConnection = Some (onOK ?d (parse ?d (m_receivedData ?c4)) ?c4)"
    by simp
  have ev3: "requestsOf (events (onIncomplete ?d ?c3)) = []
      \<and> responsesOf (events (onIncomplete ?d ?c3)) = [''Payload Too Large||'']"
    by (simp add: onIncomplete_def effect_defs bufferLimit_def payloadTooLarge_def mkResponse_def
        header_value_def line_defs)
  have ev4: "requestsOf (events (onOK ?d (parse ?d (m_receivedData ?c4)) ?c4))
        = [\<lparr>rq_headers = [''accept-encoding'' \<mapsto> ''abc'']\<rparr>]
      \<and> responsesOf (events (onOK ?d (parse ?d (m_receivedData ?c4)) ?c4)) = [''OK||abc'']"
    by (simp add: onOK_events exchange_def okResponse_def header_value_def mkResponse_def
        gzip_defs line_defs)
  show ?thesis
    unfolding chunked once chunked' once'
    using ev3 ev4 by (simp add: onBadRequest_def effect_defs freshConnection_def)
qed

text \<open>
  C7, amended. Let the parser keep to its contract (a frame it reports is not empty and
  lies within the buffer, and bytes behind a complete request do not change the verdict on
  it), and let the bytes arrive in one or more chunks over successive invocations, of
  which none but the last closes the socket. Then the outcome is the outcome of one
  invocation with all the bytes at the time of the last chunk, whatever the last chunk
  leads to: the same connection, with the same requests handed to the handler, the same
  responses written and the same buffer.
\<close>

theorem chunked_delivery_equals_single:
  assumes "framesStable d"
    and "chunks \<noteq> []"
    and "deliverAll d junk (butlast chunks) c = Some c1"
    and "isOpen (m_socket c) \<longrightarrow> isOpen (m_socket c1)"
  shows "deliverAll d junk [(fst (last chunks), concat (map snd chunks))] c
           = deliverAll d junk chunks c"
  using assms(2-)
proof (induction chunks arbitrary: c)
  case Nil
  then show ?case by simp
next
  case (Cons x xs)
  show ?case
  proof (cases "xs = []")
    case True
    then show ?thesis
      by (cases x) (simp add: deliverAll_single)
  next
    case False
    show ?thesis
    proof (cases "isOpen (m_socket c)")
      case closed: False
      then show ?thesis
        by (simp add: deliverAll_closed del: deliverAll.simps)
    next
      case open_c: True
      let ?T = "fst (last xs)" and ?R = "concat (map snd xs)"
      from Cons.prems(2) False obtain c1'
        where c1': "deliver d junk x c = Some c1'" "deliverAll d junk (butlast xs) c1' = Some c1"
        by (auto split: option.splits)
      have open_c1: "isOpen (m_socket c1)"
        using Cons.prems(3) open_c by simp
      have open_c1': "isOpen (m_socket c1')"
        using c1'(2) open_c1 deliverAll_closed [of c1' d junk "butlast xs"] by auto
      let ?c0 = "c\<lparr>m_socket := (m_socket c)\<lparr>readBuffer := []\<rparr>,
                   m_receivedData := m_receivedData c @ readBuffer (m_socket c) @ snd x,
                   m_idleTimer := fst x\<rparr>"
      have run0: "drain d ?c0 = Some c1'"
        using c1'(1) by (simp only: deliver_open [OF open_c])
      note more = drain_more_bytes [OF assms(1) run0 open_c1', where e = ?R and t = ?T]
      have rb1: "readBuffer (m_socket c1') = []"
        using more by simp
      then have sock1: "(m_socket c1')\<lparr>readBuffer := []\<rparr> = m_socket c1'"
        by (cases "m_socket c1'") simp
      have later: "isOpen (m_socket c1') \<longrightarrow> isOpen (m_socket c1)"
        using open_c1 by simp
      have "deliver d junk (?T, snd x @ ?R) c =
          drain d (?c0\<lparr>m_receivedData := m_receivedData ?c0 @ ?R, m_idleTimer := ?T\<rparr>)"
        by (simp add: deliver_open [OF open_c])
      also have "\<dots> = drain d (c1'\<lparr>m_receivedData := m_receivedData c1' @ ?R, m_idleTimer := ?T\<rparr>)"
        using more by simp
      also have "\<dots> = deliver d junk (?T, ?R) c1'"
        by (simp add: deliver_open [OF open_c1'] rb1 sock1)
      also have "\<dots> = deliverAll d junk xs c1'"
        using Cons.IH [OF False c1'(2) later] by (simp only: deliverAll_single)
      also have "\<dots> = deliverAll d junk (x # xs) c"
        by (simp add: c1'(1))
      finally have all: "deliver d junk (?T, snd x @ ?R) c = deliverAll d junk (x # xs) c" .
      have "(fst (last (x # xs)), concat (map snd (x # xs))) = (?T, snd x @ ?R)"
        using False by simp
      then show ?thesis
        by (simp only: deliverAll_single all)
    qed
  qed
qed

theorem chunked_delivery_equals_single_witness:
  "framesStable (lineServer\<lparr>MAX_CONTENT_SIZE := 2\<rparr>)
   \<and> deliverAll (lineServer\<lparr>MAX_CONTENT_SIZE := 2\<rparr>) (\<lambda>i. CHR ''?'') [(1, ''a'')] freshConnection
       = Some (freshConnection\<lparr>m_receivedData := ''a'', m_idleTimer := 1\<rparr>)
   \<and> isOpen (m_socket (freshConnection\<lparr>m_receivedData := ''a'', m_idleTimer := 1\<rparr>))
   \<and> deliverAll (lineServer\<lparr>MAX_CONTENT_SIZE := 2\<rparr>) (\<lambda>i. CHR ''?'') [(2, ''abc'')] freshConnection
       = deliverAll (lineServer\<lparr>MAX_CONTENT_SIZE := 2\<rparr>) (\<lambda>i. CHR ''?'')
           [(1, ''a''), (2, ''bc'')] freshConnection
   \<and> map_option (\<lambda>c. (isOpen (m_socket c), m_receivedData c, responsesOf (events c)))
        (deliverAll (lineServer\<lparr>MAX_CONTENT_SIZE := 2\<rparr>) (\<lambda>i. CHR ''?'')
           [(1, ''a''), (2, ''bc'')] freshConnection)
       = Some (False, ''abc'', [''Payload Too Large||''])
   \<and> framesStable lineServer
   \<and> deliverAll lineServer (\<lambda>i. CHR ''?'')
       [(1, ''a''), (2, [CHR 0x0A, CHR ''b'']), (3, [CHR 0x0A])] freshConnection
     = Some (freshConnection
         \<lparr>m_socket := (m_socket freshConnection)\<lparr>writeBuffer := ''OK||aOK||b''\<rparr>,
          m_idleTimer := 3,
          events :=
            [Processed \<lparr>rq_headers = [''accept-encoding'' \<mapsto> ''a'']\<rparr>
               (''10.0.0.1'', 8080, ''10.0.0.2'', 50000),
             Written ''OK||a'',
             Processed \<lparr>rq_headers = [''accept-encoding'' \<mapsto> ''b'']\<rparr>
               (''10.0.0.1'', 8080, ''10.0.0.2'', 50000),
             Written ''OK||b'']\<rparr>)
   \<and> deliverAll lineServer (\<lambda>i. CHR ''?'')
       [(3, [CHR ''a'', CHR 0x0A, CHR ''b'', CHR 0x0A])] freshConnection
     = deliverAll lineServer (\<lambda>i. CHR ''?'')
         [(1, ''a''), (2, [CHR 0x0A, CHR ''b'']), (3, [CHR 0x0A])] freshConnection"
proof -
  let ?J = "\<lambda>i::nat. CHR ''?''"
  let ?d = "lineServer\<lparr>MAX_CONTENT_SIZE := 2\<rparr>"
  let ?chunks = "[(1, ''a''), (2, [CHR 0x0A, CHR ''b'']), (3, [CHR 0x0A])]"
  let ?X = "freshConnection
         \<lparr>m_socket := (m_socket freshConnection)\<lparr>writeBuffer := ''OK||aOK||b''\<rparr>,
          m_idleTimer := 3,
          events :=
            [Processed \<lparr>rq_headers = [''accept-encoding'' \<mapsto> ''a'']\<rparr>
               (''10.0.0.1'', 8080, ''10.0.0.2'', 50000),
             Written ''OK||a'',
             Processed \<lparr>rq_headers = [''accept-encoding'' \<mapsto> ''b'']\<rparr>
               (''10.0.0.1'', 8080, ''10.0.0.2'', 50000),
             Written ''OK||b'']\<rparr>"
  let ?c1 = "freshConnection\<lparr>m_receivedData := ''a'', m_idleTimer := 1\<rparr>"
  let ?c2 = "freshConnection
         \<lparr>m_socket := (m_socket freshConnection)\<lparr>writeBuffer := ''OK||a''\<rparr>,
          m_receivedData := ''b'',
          m_idleTimer := 2,
          events :=
            [Processed \<lparr>rq_headers = [''accept-encoding'' \<mapsto> ''a'']\<rparr>
               (''10.0.0.1'', 8080, ''10.0.0.2'', 50000),
             Written ''OK||a'']\<rparr>"
  note eval_defs = onOK_def onIncomplete_def sendResponse_def socket_write_def okResponse_def
    exchange_def header_value_def mkResponse_def remove_bytes_def bufferLimit_def
    gzip_defs line_defs
  have stable: "framesStable lineServer"
    by (rule lineParser_framesStable) (simp add: lineServer_def)
  have stable2: "framesStable ?d"
    by (rule lineParser_framesStable) (simp add: lineServer_def)
  have d1: "deliver lineServer ?J (1, ''a'') freshConnection = Some ?c1"
  proof -
    have "deliver lineServer ?J (1, ''a'') freshConnection = drain lineServer ?c1"
      by (subst deliver_open) (simp_all add: freshConnection_def)
    also have "\<dots> = Some (onIncomplete lineServer ?c1)"
      by (rule drain_Incomplete) (simp_all add: line_defs)
    also have "onIncomplete lineServer ?c1 = ?c1"
      by (simp add: eval_defs)
    finally show ?thesis .
  qed
  have d2: "deliver lineServer ?J (2, [CHR 0x0A, CHR ''b'']) ?c1 = Some ?c2"
  proof -
    let ?b = "?c1\<lparr>m_receivedData := [CHR ''a'', CHR 0x0A, CHR ''b''], m_idleTimer := 2\<rparr>"
    have "deliver lineServer ?J (2, [CHR 0x0A, CHR ''b'']) ?c1 = drain lineServer ?b"
      by (subst deliver_open) (simp_all add: freshConnection_def)
    also have "\<dots> = drain lineServer (onOK lineServer (parse lineServer (m_receivedData ?b)) ?b)"
      by (rule drain_OK) (simp_all add: line_defs)
    also have "onOK lineServer (parse lineServer (m_receivedData ?b)) ?b = ?c2"
      by (simp add: eval_defs)
    also have "drain lineServer ?c2 = Some (onIncomplete lineServer ?c2)"
      by (rule drain_Incomplete) (simp_all add: line_defs)
    also have "onIncomplete lineServer ?c2 = ?c2"
      by (simp add: eval_defs)
    finally show ?thesis .
  qed
  have d3: "deliver lineServer ?J (3, [CHR 0x0A]) ?c2 = Some ?X"
  proof -
    let ?b = "?c2\<lparr>m_receivedData := [CHR ''b'', CHR 0x0A], m_idleTimer := 3\<rparr>"
    have "deliver lineServer ?J (3, [CHR 0x0A]) ?c2 = drain lineServer ?b"
      by (subst deliver_open) (simp_all add: freshConnection_def)
    also have "\<dots> = drain lineServer (onOK lineServer (parse lineServer (m_receivedData ?b)) ?b)"
      by (rule drain_OK) (simp_all add: line_defs)
    also have "onOK lineServer (parse lineServer (m_receivedData ?b)) ?b = ?X"
      by (simp add: eval_defs)
    also have "drain lineServer ?X = Some ?X"
      by (rule drain_empty) (simp add: freshConnection_def)
    finally show ?thesis .
  qed
  have chunked: "deliverAll lineServer ?J ?chunks freshConnection = Some ?X"
    by (simp add: d1 d2 d3)
  have ne: "?chunks \<noteq> []"
    by simp
  have before: "deliverAll lineServer ?J (butlast ?chunks) freshConnection = Some ?c2"
    by (simp add: d1 d2)
  have stays: "isOpen (m_socket freshConnection) \<longrightarrow> isOpen (m_socket ?c2)"
    by (simp add: freshConnection_def)
  from chunked_delivery_equals_single [OF stable ne before stays]
  have single: "deliverAll lineServer ?J [(3, [CHR ''a'', CHR 0x0A, CHR ''b'', CHR 0x0A])] freshConnection
      = deliverAll lineServer ?J ?chunks freshConnection"
    by simp
  let ?chunks2 = "[(1, ''a''), (2, ''bc'')]"
  let ?e1 = "freshConnection\<lparr>m_receivedData := ''a'', m_idleTimer := 1\<rparr>"
  let ?e2 = "freshConnection\<lparr>m_receivedData := ''abc'', m_idleTimer := 2\<rparr>"
  have e1: "deliver ?d ?J (1, ''a'') freshConnection = Some ?e1"
  proof -
    have "deliver ?d ?J (1, ''a'') freshConnection = drain ?d ?e1"
      by (subst deliver_open) (simp_all add: freshConnection_def)
    also have "\<dots> = Some (onIncomplete ?d ?e1)"
      by (rule drain_Incomplete) (simp_all add: line_defs)
    also have "onIncomplete ?d ?e1 = ?e1"
      by (simp add: eval_defs)
    finally show ?thesis .
  qed
  have before2: "deliverAll ?d ?J (butlast ?chunks2) freshConnection = Some ?e1"
    by (simp add: e1)
  have first2: "deliverAll ?d ?J [(1, ''a'')] freshConnection = Some ?e1"
    by (simp add: e1)
  have open2: "isOpen (m_socket ?e1)"
    by (simp add: freshConnection_def)
  have stays2: "isOpen (m_socket freshConnection) \<longrightarrow> isOpen (m_socket ?e1)"
    by (simp add: freshConnection_def)
  have ne2: "?chunks2 \<noteq> []"
    by simp
  from chunked_delivery_equals_single [OF stable2 ne2 before2 stays2]
  have single2: "deliverAll ?d ?J [(2, ''abc'')] freshConnection
      = deliverAll ?d ?J ?chunks2 freshConnection"
    by simp
  have "deliverAll ?d ?J [(2, ''abc'')] freshConnection = deliver ?d ?J (2, ''abc'') freshConnection"
    by (rule deliverAll_single)
  also have "\<dots> = drain ?d ?e2"
    by (subst deliver_open) (simp_all add: freshConnection_def)
  also have "\<dots> = Some (onIncomplete ?d ?e2)"
    by (rule drain_Incomplete) (simp_all add: line_defs)
  finally have once2: "deliverAll ?d ?J [(2, ''abc'')] freshConnection = Some (onIncomplete ?d ?e2)" .
  have out2: "map_option (\<lambda>c. (isOpen (m_socket c), m_receivedData c, responsesOf (events c)))
      (deliverAll ?d ?J ?chunks2 freshConnection) = Some (False, ''abc'', [''Payload Too Large||''])"
    unfolding single2 [symmetric] once2
    by (simp add: onIncomplete_def effect_defs bufferLimit_def payloadTooLarge_def mkResponse_def
        header_value_def line_defs)
  from stable2 first2 open2 single2 out2 stable chunked single show ?thesis
    by (simp only: simp_thms)
qed

end
